theory Spec2Isabelle
  imports Complex_Main "HOL-Library.Multiset" "HOL-Library.Char_ord" "HOL-Library.List_Lexorder"
begin

section \<open>Strings as the source uses them\<close>

text \<open>
  A JavaScript string is modelled as a \<open>string\<close>, one \<open>char\<close> per code unit, so
  \<open>length\<close> is the source's \<open>.length\<close>.  \<open>String.prototype.trim\<close> removes white space
  and line terminators from both ends; below code unit 256 these are TAB, LF, VT, FF, CR,
  SPACE and NBSP.
\<close>

definition is_ws :: "char \<Rightarrow> bool" where
  "is_ws c = (c \<in> {CHR 0x09, CHR 0x0A, CHR 0x0B, CHR 0x0C, CHR 0x0D, CHR 0x20, CHR 0xA0})"

definition trimStart :: "string \<Rightarrow> string" where
  "trimStart s = dropWhile is_ws s"

definition trim :: "string \<Rightarrow> string" where
  "trim s = rev (dropWhile is_ws (rev (dropWhile is_ws s)))"

definition endsWith :: "string \<Rightarrow> string \<Rightarrow> bool" where
  "endsWith s suf = (length suf \<le> length s \<and> drop (length s - length suf) s = suf)"

text \<open>\<open>s.split(c)\<close> for a one-character separator: never empty, \<open>['']\<close> on the empty string.\<close>

fun split :: "char \<Rightarrow> string \<Rightarrow> string list" where
  "split sep [] = [[]]"
| "split sep (c # cs) =
     (if c = sep then [] # split sep cs
      else (case split sep cs of
              [] \<Rightarrow> [[c]]
            | w # ws \<Rightarrow> (c # w) # ws))"

text \<open>\<open>xs.pop() || ''\<close>: the last element, the empty string when there is none.\<close>

definition pop_or_empty :: "string list \<Rightarrow> string" where
  "pop_or_empty xs = (case rev xs of [] \<Rightarrow> [] | x # _ \<Rightarrow> x)"

section \<open>The chunker (build/embeddings.js)\<close>

text \<open>
  The three fields of a markdown-it token that \<open>chunkMarkdownContent\<close> reads.  The parser
  itself is a library; the chunker is modelled on the token stream it returns.
\<close>

record token =
  tok_type :: string
  tok_tag :: string
  tok_content :: string

text \<open>
  A chunk as the chunker returns it.  Field \<open>tsection\<close> is the source's \<open>section\<close> (a
  reserved word here), \<open>None\<close> for \<open>undefined\<close>.
\<close>

record TextChunk =
  content :: string
  title :: string
  tsection :: "string option"

text \<open>The accumulator of the loop: the four mutable locals of \<open>chunkMarkdownContent\<close>.\<close>

record chunker =
  chunks :: "TextChunk list"
  currentSection :: string
  currentContent :: string
  currentTitle :: string

definition sepToSpace :: "char \<Rightarrow> char" where
  "sepToSpace c = (if c = CHR ''-'' \<or> c = CHR ''_'' then CHR '' '' else c)"

text \<open>
  \<open>fileName.replace(/\.md$/, '')\<close> removes the suffix \<open>.md\<close> when the name ends with
  it; \<open>.replace(/[-_]/g, ' ')\<close> maps every \<open>-\<close> and \<open>_\<close> to a space.
\<close>

definition extractTitleFromPath :: "string \<Rightarrow> string" where
  "extractTitleFromPath filePath =
     (let fileName = pop_or_empty (split CHR ''/'' filePath);
          stripped = (if endsWith fileName ''.md''
                      then take (length fileName - 3) fileName else fileName)
      in map sepToSpace stripped)"

definition nl :: char where
  "nl = CHR 0x0A"

text \<open>\<open>currentSection || undefined\<close>: the empty string becomes \<open>undefined\<close>.\<close>

definition sectionOrUndefined :: "string \<Rightarrow> string option" where
  "sectionOrUndefined s = (if s = [] then None else Some s)"

text \<open>The object pushed at each of the three flush sites.\<close>

definition flushed :: "chunker \<Rightarrow> TextChunk" where
  "flushed st = \<lparr>content = trim (currentContent st), title = currentTitle st,
                 tsection = sectionOrUndefined (currentSection st)\<rparr>"

text \<open>
  The inner \<open>while\<close> loop, started at \<open>j = i + 1\<close>: it runs over the tokens after the
  opening one, stops at the first token whose type ends in \<open>_close\<close> (or at the end of the
  stream) and concatenates the content of every \<open>inline\<close> token, each followed by a space.
\<close>

fun collectInline :: "token list \<Rightarrow> string" where
  "collectInline [] = []"
| "collectInline (t # ts) =
     (if endsWith (tok_type t) ''_close'' then []
      else (if tok_type t = ''inline'' then tok_content t @ '' '' else []) @ collectInline ts)"

definition contentToAdd :: "token \<Rightarrow> token list \<Rightarrow> string" where
  "contentToAdd t rest =
     (if tok_type t = ''code_block''
      then ''```'' @ [nl] @ tok_content t @ [nl] @ ''```'' @ [nl, nl]
      else collectInline rest @ [nl, nl])"

definition headingLine :: "token \<Rightarrow> string" where
  "headingLine h = ''# '' @ tok_content h @ [nl, nl]"

definition isContentOpen :: "token \<Rightarrow> bool" where
  "isContentOpen t =
     (tok_type t = ''paragraph_open'' \<or> tok_type t = ''list_item_open'' \<or>
      tok_type t = ''blockquote_open'' \<or> tok_type t = ''code_block'')"

text \<open>
  One iteration of the \<open>for\<close> loop at token \<open>t = tokens[i]\<close>, where \<open>rest\<close> is
  \<open>tokens[i+1..]\<close> (the loop only ever looks forward).
\<close>

definition onHeading :: "token \<Rightarrow> token list \<Rightarrow> chunker \<Rightarrow> chunker" where
  "onHeading t rest st0 =
     (let st = (if trim (currentContent st0) \<noteq> []
                then st0\<lparr>chunks := chunks st0 @ [flushed st0], currentContent := []\<rparr>
                else st0)
      in (case rest of
            [] \<Rightarrow> st
          | h # _ \<Rightarrow>
              if tok_type h = ''inline'' then
                (let st' = (if tok_tag t = ''h1''
                            then st\<lparr>currentTitle := tok_content h, currentSection := []\<rparr>
                            else st\<lparr>currentSection := tok_content h\<rparr>)
                 in st'\<lparr>currentContent := currentContent st' @ headingLine h\<rparr>)
              else st))"

definition onContent :: "token \<Rightarrow> token list \<Rightarrow> chunker \<Rightarrow> chunker" where
  "onContent t rest st =
     (let add = contentToAdd t rest
      in if length (currentContent st) + length add > 1500
         then (if trim (currentContent st) \<noteq> []
               then st\<lparr>chunks := chunks st @ [flushed st], currentContent := add\<rparr>
               else st\<lparr>currentContent := add\<rparr>)
         else st\<lparr>currentContent := currentContent st @ add\<rparr>)"

definition step :: "token \<Rightarrow> token list \<Rightarrow> chunker \<Rightarrow> chunker" where
  "step t rest st =
     (if tok_type t = ''heading_open'' then onHeading t rest st
      else if isContentOpen t then onContent t rest st
      else st)"

fun chunkLoop :: "token list \<Rightarrow> chunker \<Rightarrow> chunker" where
  "chunkLoop [] st = st"
| "chunkLoop (t # rest) st = chunkLoop rest (step t rest st)"

text \<open>
  The body of \<open>chunkMarkdownContent\<close> after \<open>this.markdown.parse(content, {})\<close>: the loop,
  the final flush, and the single-chunk fallback \<open>content.substring(0, 1500)\<close> (which sets
  no \<open>section\<close>).
\<close>

definition mainChunks :: "token list \<Rightarrow> string \<Rightarrow> TextChunk list" where
  "mainChunks tokens filePath =
     (let st = chunkLoop tokens \<lparr>chunks = [], currentSection = [], currentContent = [],
                                 currentTitle = extractTitleFromPath filePath\<rparr>
      in if trim (currentContent st) \<noteq> [] then chunks st @ [flushed st] else chunks st)"

definition fallbackTitle :: "token list \<Rightarrow> string \<Rightarrow> string" where
  "fallbackTitle tokens filePath =
     currentTitle (chunkLoop tokens \<lparr>chunks = [], currentSection = [], currentContent = [],
                                     currentTitle = extractTitleFromPath filePath\<rparr>)"

definition chunkTokens :: "token list \<Rightarrow> string \<Rightarrow> string \<Rightarrow> TextChunk list" where
  "chunkTokens tokens content0 filePath =
     (let cs = mainChunks tokens filePath
      in if length cs = 0
         then [\<lparr>content = take 1500 content0, title = fallbackTitle tokens filePath,
                tsection = None\<rparr>]
         else cs)"

text \<open>The method itself, with the library parser \<open>this.markdown.parse\<close> as a parameter.\<close>

definition chunkMarkdownContent ::
  "(string \<Rightarrow> token list) \<Rightarrow> string \<Rightarrow> string \<Rightarrow> TextChunk list" where
  "chunkMarkdownContent parse content0 filePath = chunkTokens (parse content0) content0 filePath"

text \<open>
  What each position of the token stream adds to the accumulator: the heading line at a
  \<open>heading_open\<close> followed by an \<open>inline\<close> token, \<open>contentToAdd\<close> at a paragraph,
  list item, block quote or code block, nothing elsewhere.
\<close>

fun contributions :: "token list \<Rightarrow> string list" where
  "contributions [] = []"
| "contributions (t # rest) =
     (if tok_type t = ''heading_open''
      then (case rest of [] \<Rightarrow> [] | h # _ \<Rightarrow> if tok_type h = ''inline'' then [headingLine h] else [])
      else if isContentOpen t then [contentToAdd t rest] else [])
     @ contributions rest"

text \<open>The loop invariant of the size guard, for a bound \<open>m\<close> on the single contributions.\<close>

definition bounded :: "nat \<Rightarrow> chunker \<Rightarrow> bool" where
  "bounded m st \<longleftrightarrow>
     (\<forall>c\<in>set (chunks st). length (content c) \<le> max 1500 m) \<and>
     length (trimStart (currentContent st)) \<le> max 1500 m"

text \<open>
  The specification's wording of the default title, for comparison with
  \<open>extractTitleFromPath\<close>: the file name with its extension stripped, whatever the
  extension is (everything from the last dot on), and \<open>-\<close>, \<open>_\<close> replaced by spaces.
\<close>

definition spec_stripExtension :: "string \<Rightarrow> string" where
  "spec_stripExtension name =
     (if CHR ''.'' \<in> set name
      then rev (tl (dropWhile (\<lambda>c. c \<noteq> CHR ''.'') (rev name)))
      else name)"

definition spec_normalizedTitle :: "string \<Rightarrow> string" where
  "spec_normalizedTitle filePath =
     map sepToSpace (spec_stripExtension (pop_or_empty (split CHR ''/'' filePath)))"

text \<open>Token constructor used in the concrete streams below.\<close>

definition tk :: "string \<Rightarrow> string \<Rightarrow> string \<Rightarrow> token" where
  "tk ty tg c = \<lparr>tok_type = ty, tok_tag = tg, tok_content = c\<rparr>"

text \<open>
  The streams markdown-it returns for three small documents: a heading with a paragraph
  (\<open># Setup\<close>, blank line, \<open>Run the installer.\<close>), a one-item bullet list (\<open>- foo\<close>), and
  one paragraph of 1501 letters.
\<close>

definition tokens_setup :: "token list" where
  "tokens_setup =
     [tk ''heading_open'' ''h1'' [], tk ''inline'' [] ''Setup'', tk ''heading_close'' ''h1'' [],
      tk ''paragraph_open'' ''p'' [], tk ''inline'' [] ''Run the installer.'',
      tk ''paragraph_close'' ''p'' []]"

definition tokens_list_item :: "token list" where
  "tokens_list_item =
     [tk ''bullet_list_open'' ''ul'' [], tk ''list_item_open'' ''li'' [],
      tk ''paragraph_open'' ''p'' [], tk ''inline'' [] ''foo'', tk ''paragraph_close'' ''p'' [],
      tk ''list_item_close'' ''li'' [], tk ''bullet_list_close'' ''ul'' []]"

definition tokens_long_paragraph :: "token list" where
  "tokens_long_paragraph =
     [tk ''paragraph_open'' ''p'' [], tk ''inline'' [] (replicate 1501 CHR ''a''),
      tk ''paragraph_close'' ''p'' []]"

section \<open>Numbers\<close>

text \<open>
  The numbers of the program are IEEE doubles, and the embedding blob holds 32-bit floats.
  Their arithmetic is not modelled: the type \<open>'n\<close> of numbers and the operations the
  store applies to them are a parameter of every definition that computes with numbers.
  \<open>n_zero\<close> is the literal \<open>0\<close>; \<open>n_nan\<close> is what \<open>undefined\<close> (an out-of-range array
  read) becomes as an operand of \<open>*\<close>; \<open>n_add\<close>, \<open>n_sub\<close>, \<open>n_mul\<close>, \<open>n_div\<close> are
  \<open>+\<close>, \<open>-\<close>, \<open>*\<close>, \<open>/\<close>; \<open>n_sqrt\<close> is \<open>Math.sqrt\<close>; \<open>n_is_zero x\<close> is \<open>x === 0\<close>;
  \<open>n_positive x\<close> is \<open>x > 0\<close>, the test a sort applies to what its comparator returns;
  \<open>n_fround x\<close> is \<open>x\<close> after it has been written into a \<open>Float32Array\<close> and read back.
\<close>

record 'n arith =
  n_zero :: 'n
  n_nan :: 'n
  n_add :: "'n \<Rightarrow> 'n \<Rightarrow> 'n"
  n_sub :: "'n \<Rightarrow> 'n \<Rightarrow> 'n"
  n_mul :: "'n \<Rightarrow> 'n \<Rightarrow> 'n"
  n_div :: "'n \<Rightarrow> 'n \<Rightarrow> 'n"
  n_sqrt :: "'n \<Rightarrow> 'n"
  n_is_zero :: "'n \<Rightarrow> bool"
  n_positive :: "'n \<Rightarrow> bool"
  n_fround :: "'n \<Rightarrow> 'n"

text \<open>\<open>b[i]\<close> as an operand of \<open>*\<close>: \<open>undefined\<close> out of range, which \<open>*\<close> reads as NaN.\<close>

definition js_index :: "'n arith \<Rightarrow> 'n list \<Rightarrow> nat \<Rightarrow> 'n" where
  "js_index ar b i = (if i < length b then b ! i else n_nan ar)"

section \<open>The vector store (vector-store.js)\<close>

text \<open>
  The interfaces \<open>DocumentChunk\<close> and \<open>SearchResult\<close>.  Where a field name is taken
  already it gets a prefix: \<open>chunk_id\<close> and \<open>doc_content\<close> are the source's \<open>id\<close> and
  \<open>content\<close>, \<open>md_title\<close> and \<open>md_section\<close> the metadata's \<open>title\<close> and \<open>section\<close>.
  An optional field is an \<open>option\<close>.
\<close>

record Metadata =
  md_title :: "string option"
  md_section :: "string option"
  lastUpdated :: string
  commitHash :: "string option"

record 'n DocumentChunk =
  chunk_id :: "nat option"
  repo :: string
  filePath :: string
  doc_content :: string
  embedding :: "'n list"
  metadata :: Metadata

record 'n SearchResult =
  document :: "'n DocumentChunk"
  similarity :: 'n

text \<open>
  The two tables of \<open>initializeDatabase\<close>, rows in rowid order; \<open>row_id\<close>, \<open>row_repo\<close>,
  \<open>row_content\<close> and \<open>emb_id\<close> are the columns \<open>id\<close>, \<open>repo\<close>, \<open>content\<close> and the
  embeddings' \<open>id\<close>.  \<open>row_metadata\<close> is the JSON text of the metadata
  (\<open>JSON.stringify\<close> on write, \<open>JSON.parse\<close> on read, modelled as the value itself).
  \<open>emb_blob\<close> is the embedding buffer, as the numbers that
  \<open>new Float32Array(row.embedding.buffer)\<close> reads from it.
\<close>

record document_row =
  row_id :: nat
  row_repo :: string
  file_path :: string
  row_content :: string
  row_metadata :: Metadata
  last_updated :: string
  commit_hash :: "string option"

record 'n embedding_row =
  emb_id :: nat
  document_id :: nat
  emb_blob :: "'n list"

text \<open>
  The database behind \<open>this.db\<close>.  \<open>documents_seq\<close> is the \<open>sqlite_sequence\<close> entry that
  \<open>AUTOINCREMENT\<close> keeps for \<open>documents\<close> (the largest rowid ever used);
  \<open>foreign_keys\<close> is the connection's foreign-key enforcement.
\<close>

record 'n database =
  documents :: "document_row list"
  embeddings :: "'n embedding_row list"
  documents_seq :: nat
  foreign_keys :: bool

text \<open>
  \<open>new Database(dbPath)\<close> on a path with no file yet, followed by \<open>initializeDatabase\<close>:
  two empty tables.  The constructor issues no \<open>PRAGMA\<close>, so foreign-key enforcement is
  whatever the library's connections start with; that default is the parameter \<open>fk\<close>.
  better-sqlite3 builds its SQLite with \<open>SQLITE_DEFAULT_FOREIGN_KEYS=1\<close>, so for the
  library as shipped \<open>fk\<close> is \<open>True\<close>.  (On an existing file the constructor changes
  nothing: every statement is \<open>CREATE ... IF NOT EXISTS\<close>.)
\<close>

definition VectorStore_new :: "bool \<Rightarrow> 'n database" where
  "VectorStore_new fk = \<lparr>documents = [], embeddings = [], documents_seq = 0, foreign_keys = fk\<rparr>"

datatype error = SqliteError

text \<open>
  What the storage layer does to one call of \<open>addDocument\<close>: nothing, or it makes the
  first or the second \<open>run\<close> throw (disk full, I/O error).
\<close>

datatype fault = NoFault | FirstWriteFails | SecondWriteFails

text \<open>The \<open>UNIQUE(repo, file_path, content)\<close> key of a row and of an incoming chunk.\<close>

definition row_key :: "document_row \<Rightarrow> string \<times> string \<times> string" where
  "row_key d = (row_repo d, file_path d, row_content d)"

definition chunk_key :: "'n DocumentChunk \<Rightarrow> string \<times> string \<times> string" where
  "chunk_key doc = (repo doc, filePath doc, doc_content doc)"

text \<open>
  Deleting document rows: the rows satisfying \<open>gone\<close> leave \<open>documents\<close>; with foreign
  keys enforced, \<open>ON DELETE CASCADE\<close> removes the embedding rows that reference them.
\<close>

definition delete_documents :: "(document_row \<Rightarrow> bool) \<Rightarrow> 'n database \<Rightarrow> 'n database" where
  "delete_documents gone db =
     (let removed = map row_id (filter gone (documents db))
      in db\<lparr>documents := filter (\<lambda>d. \<not> gone d) (documents db),
             embeddings := (if foreign_keys db
                            then filter (\<lambda>e. document_id e \<notin> set removed) (embeddings db)
                            else embeddings db)\<rparr>)"

text \<open>
  The rowid an \<open>AUTOINCREMENT\<close> table gives a new row: one more than the largest rowid
  ever used.  A plain \<open>INTEGER PRIMARY KEY\<close> gives one more than the largest rowid now in
  the table.
\<close>

definition next_document_id :: "'n database \<Rightarrow> nat" where
  "next_document_id db = Suc (fold max (map row_id (documents db)) (documents_seq db))"

definition next_embedding_id :: "'n database \<Rightarrow> nat" where
  "next_embedding_id db = Suc (fold max (map emb_id (embeddings db)) 0)"

text \<open>
  \<open>INSERT OR REPLACE INTO documents\<close>: a row with the same key is deleted first (a delete
  like any other, so the cascade applies), then the new row is appended under a fresh id.
  Returns \<open>lastInsertRowid\<close>.
\<close>

definition insertDoc :: "'n DocumentChunk \<Rightarrow> 'n database \<Rightarrow> nat \<times> 'n database" where
  "insertDoc doc db =
     (let n = next_document_id db;
          db1 = delete_documents (\<lambda>d. row_key d = chunk_key doc) db;
          row = \<lparr>row_id = n, row_repo = repo doc, file_path = filePath doc,
                 row_content = doc_content doc, row_metadata = metadata doc,
                 last_updated = lastUpdated (metadata doc),
                 commit_hash = commitHash (metadata doc)\<rparr>
      in (n, db1\<lparr>documents := documents db1 @ [row], documents_seq := n\<rparr>))"

text \<open>
  \<open>INSERT OR REPLACE INTO embeddings (document_id, embedding)\<close>: the id is not given, so
  there is nothing to conflict with and a row is always appended.  With foreign keys
  enforced the referenced document must exist.
\<close>

definition insertEmbedding :: "nat \<Rightarrow> 'n list \<Rightarrow> 'n database \<Rightarrow> error + 'n database" where
  "insertEmbedding documentId buf db =
     (if foreign_keys db \<and> documentId \<notin> set (map row_id (documents db))
      then Inl SqliteError
      else Inr (db\<lparr>embeddings := embeddings db @
                     [\<lparr>emb_id = next_embedding_id db, document_id = documentId,
                       emb_blob = buf\<rparr>]\<rparr>))"

text \<open>
  \<open>Buffer.from(new Float32Array(doc.embedding).buffer)\<close>: every component goes through a
  32-bit float.
\<close>

definition embeddingBuffer :: "'n arith \<Rightarrow> 'n DocumentChunk \<Rightarrow> 'n list" where
  "embeddingBuffer ar doc = map (n_fround ar) (embedding doc)"

text \<open>
  \<open>addDocument\<close>: the two statements run one after the other, with no transaction around
  them.  A throw leaves what was written before it.
\<close>

definition addDocumentF ::
  "'n arith \<Rightarrow> fault \<Rightarrow> 'n DocumentChunk \<Rightarrow> 'n database \<Rightarrow> (error + nat) \<times> 'n database" where
  "addDocumentF ar f doc db =
     (if f = FirstWriteFails then (Inl SqliteError, db)
      else (let (documentId, db1) = insertDoc doc db
            in if f = SecondWriteFails then (Inl SqliteError, db1)
               else (case insertEmbedding documentId (embeddingBuffer ar doc) db1 of
                       Inl e \<Rightarrow> (Inl e, db1)
                     | Inr db2 \<Rightarrow> (Inr documentId, db2))))"

definition addDocument ::
  "'n arith \<Rightarrow> 'n DocumentChunk \<Rightarrow> 'n database \<Rightarrow> (error + nat) \<times> 'n database" where
  "addDocument ar = addDocumentF ar NoFault"

definition deleteRepo :: "string \<Rightarrow> 'n database \<Rightarrow> 'n database" where
  "deleteRepo r db = delete_documents (\<lambda>d. row_repo d = r) db"

text \<open>\<open>FROM documents d JOIN embeddings e ON d.id = e.document_id\<close>.\<close>

definition joined :: "'n database \<Rightarrow> (document_row \<times> 'n embedding_row) list" where
  "joined db =
     concat (map (\<lambda>d. map (\<lambda>e. (d, e)) (filter (\<lambda>e. document_id e = row_id d) (embeddings db)))
                 (documents db))"

text \<open>
  A stable insertion sort: \<open>before x y\<close> says that \<open>x\<close> may stand in front of \<open>y\<close>.  It
  stands for \<open>ORDER BY\<close> (where SQLite leaves the order of ties open; the model keeps rowid
  order) and for \<open>Array.prototype.sort\<close>, which is stable.
\<close>

fun insort_by :: "('a \<Rightarrow> 'a \<Rightarrow> bool) \<Rightarrow> 'a \<Rightarrow> 'a list \<Rightarrow> 'a list" where
  "insort_by before x [] = [x]"
| "insort_by before x (y # ys) =
     (if before x y then x # y # ys else y # insort_by before x ys)"

definition sort_by :: "('a \<Rightarrow> 'a \<Rightarrow> bool) \<Rightarrow> 'a list \<Rightarrow> 'a list" where
  "sort_by before xs = foldr (insort_by before) xs []"

text \<open>\<open>ORDER BY d.last_updated DESC\<close>: a \<open>TEXT\<close> column, compared as a string.\<close>

definition newest_first ::
  "(document_row \<times> 'n embedding_row) list \<Rightarrow> (document_row \<times> 'n embedding_row) list" where
  "newest_first rows = sort_by (\<lambda>x y. last_updated (fst y) \<le> last_updated (fst x)) rows"

text \<open>\<open>LIMIT n\<close>: a negative \<open>n\<close> means no limit.  \<open>xs.slice(0, n)\<close>: a negative \<open>n\<close> counts from the end.\<close>

definition sql_limit :: "int \<Rightarrow> 'a list \<Rightarrow> 'a list" where
  "sql_limit n xs = (if n < 0 then xs else take (nat n) xs)"

definition slice0 :: "'a list \<Rightarrow> int \<Rightarrow> 'a list" where
  "slice0 xs n = (if n < 0 then take (length xs - nat (- n)) xs else take (nat n) xs)"

text \<open>
  \<open>cosineSimilarity\<close>.  The dot product is \<open>a.reduce((sum, val, i) => sum + val * b[i], 0)\<close>:
  it runs over the indices of \<open>a\<close> and reads \<open>b\<close> at each.  A magnitude is
  \<open>Math.sqrt(a.reduce((sum, val) => sum + val * val, 0))\<close>.
\<close>

fun dotFrom :: "'n arith \<Rightarrow> nat \<Rightarrow> 'n list \<Rightarrow> 'n list \<Rightarrow> 'n \<Rightarrow> 'n" where
  "dotFrom ar i [] b acc = acc"
| "dotFrom ar i (val # rest) b acc =
     dotFrom ar (Suc i) rest b (n_add ar acc (n_mul ar val (js_index ar b i)))"

definition dotProduct :: "'n arith \<Rightarrow> 'n list \<Rightarrow> 'n list \<Rightarrow> 'n" where
  "dotProduct ar a b = dotFrom ar 0 a b (n_zero ar)"

definition magnitude :: "'n arith \<Rightarrow> 'n list \<Rightarrow> 'n" where
  "magnitude ar a = n_sqrt ar (fold (\<lambda>val acc. n_add ar acc (n_mul ar val val)) a (n_zero ar))"

definition cosineSimilarity :: "'n arith \<Rightarrow> 'n list \<Rightarrow> 'n list \<Rightarrow> 'n" where
  "cosineSimilarity ar a b =
     (let dotProduct = dotProduct ar a b;
          magnitudeA = magnitude ar a;
          magnitudeB = magnitude ar b
      in if n_is_zero ar magnitudeA \<or> n_is_zero ar magnitudeB then n_zero ar
         else n_div ar dotProduct (n_mul ar magnitudeA magnitudeB))"

definition toChunk :: "document_row \<times> 'n embedding_row \<Rightarrow> 'n DocumentChunk" where
  "toChunk r = \<lparr>chunk_id = Some (row_id (fst r)), repo = row_repo (fst r),
                 filePath = file_path (fst r), doc_content = row_content (fst r),
                 embedding = emb_blob (snd r), metadata = row_metadata (fst r)\<rparr>"

text \<open>
  The comparator \<open>(a, b) => b.similarity - a.similarity\<close>: \<open>a\<close> may stand in front of \<open>b\<close>
  unless the difference is positive.  When the comparator is not consistent on the scores
  (a NaN among them, say) the language leaves the resulting order to the engine; the
  insertion sort is then one possible order.
\<close>

definition bySimilarity :: "'n arith \<Rightarrow> 'n SearchResult \<Rightarrow> 'n SearchResult \<Rightarrow> bool" where
  "bySimilarity ar a b = (\<not> n_positive ar (n_sub ar (similarity b) (similarity a)))"

text \<open>
  \<open>searchSimilar\<close>.  \<open>repoFilter\<close> is \<open>None\<close> for \<open>undefined\<close>; \<open>limit\<close> is an integer,
  given by the caller (the default 10 is what a caller that omits it passes).  The query
  selects the candidate rows, orders them newest first and keeps \<open>limit * 3\<close> of them;
  only these are scored, sorted by similarity and cut to \<open>limit\<close>.  The query vector goes
  into the scores as it is (\<open>queryBuffer\<close> is computed and never used).
\<close>

definition candidates ::
  "'n database \<Rightarrow> string list option \<Rightarrow> (document_row \<times> 'n embedding_row) list" where
  "candidates db repoFilter =
     (case repoFilter of
        None \<Rightarrow> joined db
      | Some rs \<Rightarrow> if length rs > 0
                   then filter (\<lambda>r. row_repo (fst r) \<in> set rs) (joined db)
                   else joined db)"

definition fetched ::
  "'n database \<Rightarrow> int \<Rightarrow> string list option \<Rightarrow> (document_row \<times> 'n embedding_row) list" where
  "fetched db limit repoFilter = sql_limit (limit * 3) (newest_first (candidates db repoFilter))"

definition score :: "'n arith \<Rightarrow> 'n list \<Rightarrow> document_row \<times> 'n embedding_row \<Rightarrow> 'n SearchResult" where
  "score ar queryEmbedding r =
     \<lparr>document = toChunk r,
      similarity = cosineSimilarity ar queryEmbedding (emb_blob (snd r))\<rparr>"

definition searchSimilar ::
  "'n arith \<Rightarrow> 'n database \<Rightarrow> 'n list \<Rightarrow> int \<Rightarrow> string list option \<Rightarrow> 'n SearchResult list" where
  "searchSimilar ar db queryEmbedding limit repoFilter =
     slice0 (sort_by (bySimilarity ar)
               (map (score ar queryEmbedding) (fetched db limit repoFilter))) limit"

definition getDocumentsByRepo :: "'n database \<Rightarrow> string \<Rightarrow> 'n DocumentChunk list" where
  "getDocumentsByRepo db r =
     map toChunk (newest_first (filter (\<lambda>x. row_repo (fst x) = r) (joined db)))"

text \<open>
  The specification's wording of the search, for comparison with \<open>searchSimilar\<close>: every
  candidate is scored, and the first \<open>topK\<close> of all of them, by similarity, are returned.
\<close>

definition spec_searchSimilar ::
  "'n arith \<Rightarrow> 'n database \<Rightarrow> 'n list \<Rightarrow> int \<Rightarrow> string list option \<Rightarrow> 'n SearchResult list" where
  "spec_searchSimilar ar db queryEmbedding topK collectionFilter =
     slice0 (sort_by (bySimilarity ar)
               (map (score ar queryEmbedding) (candidates db collectionFilter))) topK"


text \<open>On a set where \<open>before\<close> is total and transitive, the sort sorts.\<close>

definition total_trans_on :: "'a set \<Rightarrow> ('a \<Rightarrow> 'a \<Rightarrow> bool) \<Rightarrow> bool" where
  "total_trans_on A before \<longleftrightarrow>
     (\<forall>x\<in>A. \<forall>y\<in>A. before x y \<or> before y x) \<and>
     (\<forall>x\<in>A. \<forall>y\<in>A. \<forall>z\<in>A. before x y \<longrightarrow> before y z \<longrightarrow> before x z)"

text \<open>Names for the rows the two statements of \<open>addDocument\<close> write.\<close>

definition newRow :: "nat \<Rightarrow> 'n DocumentChunk \<Rightarrow> document_row" where
  "newRow n doc = \<lparr>row_id = n, row_repo = repo doc, file_path = filePath doc,
                 row_content = doc_content doc, row_metadata = metadata doc,
                 last_updated = lastUpdated (metadata doc),
                 commit_hash = commitHash (metadata doc)\<rparr>"

definition newEmb :: "'n database \<Rightarrow> nat \<Rightarrow> 'n list \<Rightarrow> 'n embedding_row" where
  "newEmb db n buf = \<lparr>emb_id = next_embedding_id db, document_id = n, emb_blob = buf\<rparr>"

text \<open>
  Invariants of the store.  \<open>store_ok\<close>: ids and keys in \<open>documents\<close> are unique (the
  table's \<open>PRIMARY KEY\<close> and \<open>UNIQUE\<close> constraints) and no embedding refers to an id that
  \<open>AUTOINCREMENT\<close> has not handed out yet.  \<open>no_orphans\<close>: every embedding row refers to a
  document row that exists.
\<close>

definition store_ok :: "'n database \<Rightarrow> bool" where
  "store_ok db \<longleftrightarrow>
     distinct (map row_id (documents db)) \<and>
     distinct (map row_key (documents db)) \<and>
     (\<forall>e\<in>set (embeddings db). document_id e \<le> documents_seq db)"

definition no_orphans :: "'n database \<Rightarrow> bool" where
  "no_orphans db \<longleftrightarrow> (\<forall>e\<in>set (embeddings db). \<exists>d\<in>set (documents db). row_id d = document_id e)"

text \<open>
  The stores the program can be in, for a library whose connections start with
  enforcement \<open>fk\<close>: a new store, and what upserts (whatever the storage layer does to
  them) and repository deletions make of it.
\<close>

inductive reachable :: "'n arith \<Rightarrow> bool \<Rightarrow> 'n database \<Rightarrow> bool" for ar :: "'n arith" where
  fresh: "reachable ar fk (VectorStore_new fk)"
| upsert: "reachable ar fk db \<Longrightarrow> reachable ar fk (snd (addDocumentF ar f doc db))"
| delete: "reachable ar fk db \<Longrightarrow> reachable ar fk (deleteRepo r db)"


subsection \<open>Sample data\<close>

text \<open>
  A sample arithmetic for the concrete stores below: the reals with NaN, computed without
  rounding.  It is not the arithmetic of the program.  It gives what IEEE doubles give
  wherever no operation rounds, overflows, underflows or divides by zero, and a 32-bit
  float holds the number exactly; that is so for every number the samples compute, whose
  vectors have the components 0, 1 and -1.
\<close>

datatype jsnum = NaN | Num real

fun js_add :: "jsnum \<Rightarrow> jsnum \<Rightarrow> jsnum" where
  "js_add (Num x) (Num y) = Num (x + y)"
| "js_add _ _ = NaN"

fun js_sub :: "jsnum \<Rightarrow> jsnum \<Rightarrow> jsnum" where
  "js_sub (Num x) (Num y) = Num (x - y)"
| "js_sub _ _ = NaN"

fun js_mul :: "jsnum \<Rightarrow> jsnum \<Rightarrow> jsnum" where
  "js_mul (Num x) (Num y) = Num (x * y)"
| "js_mul _ _ = NaN"

fun js_div :: "jsnum \<Rightarrow> jsnum \<Rightarrow> jsnum" where
  "js_div (Num x) (Num y) = (if y = 0 then NaN else Num (x / y))"
| "js_div _ _ = NaN"

fun js_sqrt :: "jsnum \<Rightarrow> jsnum" where
  "js_sqrt (Num x) = (if x < 0 then NaN else Num (sqrt x))"
| "js_sqrt NaN = NaN"

fun js_positive :: "jsnum \<Rightarrow> bool" where
  "js_positive (Num x) = (0 < x)"
| "js_positive NaN = False"

fun js_le :: "jsnum \<Rightarrow> jsnum \<Rightarrow> bool" where
  "js_le (Num x) (Num y) = (x \<le> y)"
| "js_le _ _ = False"

definition exact_arith :: "jsnum arith" where
  "exact_arith =
     \<lparr>n_zero = Num 0, n_nan = NaN, n_add = js_add, n_sub = js_sub, n_mul = js_mul,
      n_div = js_div, n_sqrt = js_sqrt, n_is_zero = (\<lambda>x. x = Num 0),
      n_positive = js_positive, n_fround = (\<lambda>x. x)\<rparr>"

text \<open>A chunk with the given fields.\<close>

definition mkDoc :: "string \<Rightarrow> string \<Rightarrow> string \<Rightarrow> real list \<Rightarrow> string \<Rightarrow> jsnum DocumentChunk" where
  "mkDoc r p c e t =
     \<lparr>chunk_id = None, repo = r, filePath = p, doc_content = c, embedding = map Num e,
      metadata = \<lparr>md_title = None, md_section = None, lastUpdated = t, commitHash = None\<rparr>\<rparr>"

definition upsert :: "jsnum DocumentChunk \<Rightarrow> jsnum database \<Rightarrow> jsnum database" where
  "upsert doc db = snd (addDocument exact_arith doc db)"

text \<open>
  Two stores filled by four upserts.  In \<open>store4\<close> the oldest chunk alone points the way
  of the query \<open>[1, 0]\<close>; in \<open>store_ranked\<close> the three newest chunks score 0, 1 and -1
  against it.
\<close>

definition store4 :: "jsnum database" where
  "store4 =
     upsert (mkDoc ''a/b'' ''d4.md'' ''D'' [0, 1] ''2024-04-01T00:00:00Z'')
     (upsert (mkDoc ''a/b'' ''d3.md'' ''C'' [0, 1] ''2024-03-01T00:00:00Z'')
     (upsert (mkDoc ''a/b'' ''d2.md'' ''B'' [0, 1] ''2024-02-01T00:00:00Z'')
     (upsert (mkDoc ''a/b'' ''d1.md'' ''A'' [1, 0] ''2024-01-01T00:00:00Z'')
        (VectorStore_new True))))"

definition store_ranked :: "jsnum database" where
  "store_ranked =
     upsert (mkDoc ''a/b'' ''r4.md'' ''D'' [0, 1] ''2024-04-01T00:00:00Z'')
     (upsert (mkDoc ''c/d'' ''r3.md'' ''C'' [1, 0] ''2024-03-01T00:00:00Z'')
     (upsert (mkDoc ''a/b'' ''r2.md'' ''B'' [-1, 0] ''2024-02-01T00:00:00Z'')
     (upsert (mkDoc ''a/b'' ''r1.md'' ''A'' [0, 1] ''2024-01-01T00:00:00Z'')
        (VectorStore_new True))))"

text \<open>
  More sample chunks: \<open>docA'\<close> has the key of \<open>docA\<close> and another embedding;
  \<open>docLong\<close> has a three-component embedding.
\<close>

definition docA :: "jsnum DocumentChunk" where
  "docA = mkDoc ''a/b'' ''README.md'' ''X'' [1, 0] ''2024-01-01T00:00:00Z''"


definition docLong :: "jsnum DocumentChunk" where
  "docLong = mkDoc ''a/b'' ''long.md'' ''Y'' [1, 0, 0] ''2024-03-01T00:00:00Z''"

section \<open>The freshness gate (index.ts, autoIndexRepositories)\<close>

text \<open>
  One entry of \<open>getRepoStats\<close>; \<open>stat_repo\<close> and \<open>stat_lastUpdated\<close> are its \<open>repo\<close> and
  \<open>lastUpdated\<close>.
\<close>

record RepoStats =
  stat_repo :: string
  docCount :: nat
  stat_lastUpdated :: string

text \<open>
  \<open>new Date(s)\<close> is a parameter \<open>Date\<close> of the gate: the time value in milliseconds, or
  \<open>None\<close> for an invalid date (whose time value is NaN).  \<open>>=\<close> on two dates compares the
  time values and is false when either is NaN.
\<close>

definition date_ge :: "int option \<Rightarrow> int option \<Rightarrow> bool" where
  "date_ge a b = (case (a, b) of (Some x, Some y) \<Rightarrow> x \<ge> y | _ \<Rightarrow> False)"

text \<open>\<open>stats.find((s) => s.repo === fullName)\<close>.\<close>

definition existingRepo :: "RepoStats list \<Rightarrow> string \<Rightarrow> RepoStats option" where
  "existingRepo stats fullName = find (\<lambda>s. stat_repo s = fullName) stats"

text \<open>
  The condition of the \<open>if\<close> that skips a repository:
  \<open>existingRepo && new Date(existingRepo.lastUpdated) >= new Date(repo.updatedAt)\<close>.
  When it is false the loop goes on to index the repository.
\<close>

definition isUpToDate :: "(string \<Rightarrow> int option) \<Rightarrow> RepoStats option \<Rightarrow> string \<Rightarrow> bool" where
  "isUpToDate Date existing updatedAt =
     (case existing of
        None \<Rightarrow> False
      | Some s \<Rightarrow> date_ge (Date (stat_lastUpdated s)) (Date updatedAt))"

definition needsReindex :: "(string \<Rightarrow> int option) \<Rightarrow> RepoStats option \<Rightarrow> string \<Rightarrow> bool" where
  "needsReindex Date existing updatedAt = (\<not> isUpToDate Date existing updatedAt)"

text \<open>A sample \<open>Date\<close>, and sample statistics.\<close>

definition sampleDate :: "string \<Rightarrow> int option" where
  "sampleDate s =
     (if s = ''2024-01-01T00:00:00Z'' then Some 1704067200000
      else if s = ''2024-02-01T00:00:00Z'' then Some 1706745600000
      else None)"

definition statsJan :: RepoStats where
  "statsJan = \<lparr>stat_repo = ''a/b'', docCount = 3, stat_lastUpdated = ''2024-01-01T00:00:00Z''\<rparr>"

definition statsFeb :: RepoStats where
  "statsFeb = \<lparr>stat_repo = ''a/b'', docCount = 3, stat_lastUpdated = ''2024-02-01T00:00:00Z''\<rparr>"

section \<open>Properties of the chunker\<close>

subsection \<open>Splitting and trimming\<close>

lemma split_not_Nil: "split sep s \<noteq> []"
  by (induction s) (auto split: list.splits)

lemma split_no_sep: "sep \<notin> set s \<Longrightarrow> split sep s = [s]"
  by (induction s) auto

lemma split_append: "split sep (a @ sep # b) = split sep a @ split sep b"
  by (induction a) (auto simp: split_not_Nil split: list.splits)

lemma pop_or_empty_last: "xs \<noteq> [] \<Longrightarrow> pop_or_empty xs = last xs"
  by (cases xs rule: rev_cases) (auto simp: pop_or_empty_def)

lemma fileName_plain: "CHR ''/'' \<notin> set name \<Longrightarrow> pop_or_empty (split CHR ''/'' name) = name"
  by (simp add: split_no_sep pop_or_empty_def)

lemma fileName_dir:
  "CHR ''/'' \<notin> set name \<Longrightarrow> pop_or_empty (split CHR ''/'' (dir @ ''/'' @ name)) = name"
  by (simp add: split_append pop_or_empty_last split_not_Nil split_no_sep)

lemma length_trim_le: "length (trim s) \<le> length (trimStart s)"
  unfolding trim_def trimStart_def
  by (metis length_rev length_dropWhile_le)

lemma length_trimStart_le: "length (trimStart s) \<le> length s"
  by (simp add: trimStart_def length_dropWhile_le)

lemma trimStart_Nil [simp]: "trimStart [] = []"
  by (simp add: trimStart_def)

lemma trim_Nil_iff: "trim s = [] \<longleftrightarrow> (\<forall>c\<in>set s. is_ws c)"
proof
  assume "trim s = []"
  then have a: "\<forall>x\<in>set (dropWhile is_ws s). is_ws x"
    by (simp add: trim_def dropWhile_eq_Nil_conv)
  have "dropWhile is_ws s = []"
  proof (rule ccontr)
    assume n: "dropWhile is_ws s \<noteq> []"
    then have "\<not> is_ws (hd (dropWhile is_ws s))" by (rule hd_dropWhile)
    moreover have "hd (dropWhile is_ws s) \<in> set (dropWhile is_ws s)" using n by simp
    ultimately show False using a by blast
  qed
  then show "\<forall>c\<in>set s. is_ws c" by (simp add: dropWhile_eq_Nil_conv)
next
  assume "\<forall>c\<in>set s. is_ws c"
  then have d: "dropWhile is_ws s = []" by simp
  show "trim s = []" unfolding trim_def d by simp
qed

lemma trimStart_append_ws: "\<forall>c\<in>set a. is_ws c \<Longrightarrow> trimStart (a @ b) = trimStart b"
  by (simp add: trimStart_def dropWhile_append2)

lemma last_dropWhile: "dropWhile P xs \<noteq> [] \<Longrightarrow> last (dropWhile P xs) = last xs"
  by (induction xs) (auto split: if_splits)

lemma trim_idem: "trim (trim s) = trim s"
proof -
  define u where "u = dropWhile is_ws s"
  define v where "v = dropWhile is_ws (rev u)"
  have t: "trim s = rev v" by (simp add: trim_def u_def v_def)
  have "dropWhile is_ws (rev v) = rev v"
  proof (cases "v = []")
    case True then show ?thesis by simp
  next
    case False
    then have "u \<noteq> []" by (auto simp: v_def)
    then have "\<not> is_ws (hd u)" unfolding u_def by (rule hd_dropWhile)
    moreover have "last v = last (rev u)" using False unfolding v_def by (rule last_dropWhile)
    ultimately have "\<not> is_ws (hd (rev v))" using False \<open>u \<noteq> []\<close>
      by (simp add: hd_rev last_rev)
    then show ?thesis by (simp add: dropWhile_eq_self_iff)
  qed
  moreover have "dropWhile is_ws v = v" by (simp add: v_def)
  ultimately have "rev (dropWhile is_ws (rev (dropWhile is_ws (rev v)))) = rev v" by simp
  then show ?thesis unfolding t trim_def[of "rev v"] .
qed

subsection \<open>The size guard\<close>

lemma flushed_bounded: "bounded m st \<Longrightarrow> length (content (flushed st)) \<le> max 1500 m"
  using length_trim_le [of "currentContent st"] by (simp add: bounded_def flushed_def)

lemma onContent_bounded:
  assumes "bounded m st" and "length (contentToAdd t rest) \<le> m"
  shows "bounded m (onContent t rest st)"
proof (cases "length (currentContent st) + length (contentToAdd t rest) > 1500")
  case True
  have a: "length (trimStart (contentToAdd t rest)) \<le> max 1500 m"
    using length_trimStart_le [of "contentToAdd t rest"] assms(2) by linarith
  have cs: "\<forall>c\<in>set (chunks st). length (content c) \<le> max 1500 m"
    using assms(1) by (simp add: bounded_def)
  show ?thesis
  proof (cases "trim (currentContent st) = []")
    case True
    with \<open>1500 < _\<close> have "onContent t rest st = st\<lparr>currentContent := contentToAdd t rest\<rparr>"
      by (simp add: onContent_def Let_def)
    then show ?thesis using a cs by (simp add: bounded_def)
  next
    case False
    with \<open>1500 < _\<close> have "onContent t rest st =
        st\<lparr>chunks := chunks st @ [flushed st], currentContent := contentToAdd t rest\<rparr>"
      by (simp add: onContent_def Let_def)
    then show ?thesis using a cs flushed_bounded [OF assms(1)] by (simp add: bounded_def)
  qed
next
  case False
  then have e: "onContent t rest st = st\<lparr>currentContent := currentContent st @ contentToAdd t rest\<rparr>"
    by (simp add: onContent_def Let_def)
  have "length (trimStart (currentContent st @ contentToAdd t rest)) \<le> 1500"
    using length_trimStart_le [of "currentContent st @ contentToAdd t rest"] False by simp
  then have "length (trimStart (currentContent st @ contentToAdd t rest)) \<le> max 1500 m"
    by linarith
  then show ?thesis using assms(1) unfolding e by (simp add: bounded_def)
qed

lemma onHeading_flush:
  assumes "bounded m st"
  shows "bounded m (if trim (currentContent st) \<noteq> []
                    then st\<lparr>chunks := chunks st @ [flushed st], currentContent := []\<rparr>
                    else st)"
  using assms flushed_bounded [OF assms] by (simp add: bounded_def)

lemma onHeading_flush_ws:
  "\<forall>c\<in>set (currentContent (if trim (currentContent st) \<noteq> []
                    then st\<lparr>chunks := chunks st @ [flushed st], currentContent := []\<rparr>
                    else st)). is_ws c"
  by (simp add: trim_Nil_iff)

lemma heading_append_bounded:
  assumes "bounded m st" and "\<forall>c\<in>set (currentContent st). is_ws c"
    and "length (headingLine h) \<le> m"
  shows "bounded m (st\<lparr>currentContent := currentContent st @ headingLine h\<rparr>)"
proof -
  have "length (trimStart (currentContent st @ headingLine h)) \<le> length (headingLine h)"
    using trimStart_append_ws [OF assms(2), of "headingLine h"]
      length_trimStart_le [of "headingLine h"] by simp
  then have "length (trimStart (currentContent st @ headingLine h)) \<le> max 1500 m"
    using assms(3) by linarith
  then show ?thesis using assms(1) by (simp add: bounded_def)
qed

lemma onHeading_bounded:
  assumes "bounded m st"
    and "\<And>h hs. rest = h # hs \<Longrightarrow> tok_type h = ''inline'' \<Longrightarrow> length (headingLine h) \<le> m"
  shows "bounded m (onHeading t rest st)"
proof -
  define st1 where "st1 = (if trim (currentContent st) \<noteq> []
                    then st\<lparr>chunks := chunks st @ [flushed st], currentContent := []\<rparr>
                    else st)"
  have b1: "bounded m st1" unfolding st1_def using assms(1) by (rule onHeading_flush)
  have ws: "\<forall>c\<in>set (currentContent st1). is_ws c" unfolding st1_def by (rule onHeading_flush_ws)
  show ?thesis
  proof (cases rest)
    case Nil
    then have "onHeading t rest st = st1" by (simp add: onHeading_def st1_def)
    then show ?thesis using b1 by simp
  next
    case (Cons h hs)
    show ?thesis
    proof (cases "tok_type h = ''inline''")
      case False
      then have "onHeading t rest st = st1" using Cons by (simp add: onHeading_def st1_def)
      then show ?thesis using b1 by simp
    next
      case True
      have hl: "length (headingLine h) \<le> m" using assms(2) Cons True by blast
      define st2 where "st2 = (if tok_tag t = ''h1''
                            then st1\<lparr>currentTitle := tok_content h, currentSection := []\<rparr>
                            else st1\<lparr>currentSection := tok_content h\<rparr>)"
      have b2: "bounded m st2" using b1 by (simp add: st2_def bounded_def)
      have ws2: "\<forall>c\<in>set (currentContent st2). is_ws c" using ws by (simp add: st2_def)
      have "onHeading t rest st = st2\<lparr>currentContent := currentContent st2 @ headingLine h\<rparr>"
        using Cons True by (simp add: onHeading_def st1_def st2_def Let_def)
      then show ?thesis using heading_append_bounded [OF b2 ws2 hl] by simp
    qed
  qed
qed

lemma step_bounded:
  assumes "bounded m st" and "\<forall>s\<in>set (contributions (t # rest)). length s \<le> m"
  shows "bounded m (step t rest st)"
proof -
  consider (h) "tok_type t = ''heading_open''"
    | (c) "tok_type t \<noteq> ''heading_open''" "isContentOpen t"
    | (o) "tok_type t \<noteq> ''heading_open''" "\<not> isContentOpen t" by blast
  then show ?thesis
  proof cases
    case h
    have "length (headingLine x) \<le> m" if "rest = x # hs" "tok_type x = ''inline''" for x hs
      using assms(2) h that by simp
    then show ?thesis using h onHeading_bounded [OF assms(1)] by (simp add: step_def)
  next
    case c
    then have "length (contentToAdd t rest) \<le> m" using assms(2) by simp
    then show ?thesis using c onContent_bounded [OF assms(1)] by (simp add: step_def)
  next
    case o
    then show ?thesis using assms(1) by (simp add: step_def)
  qed
qed

lemma chunkLoop_bounded:
  "bounded m st \<Longrightarrow> \<forall>s\<in>set (contributions tokens). length s \<le> m \<Longrightarrow>
   bounded m (chunkLoop tokens st)"
proof (induction tokens arbitrary: st)
  case Nil
  then show ?case by simp
next
  case (Cons t rest)
  have "bounded m (step t rest st)" using Cons.prems by (rule step_bounded)
  moreover have "\<forall>s\<in>set (contributions rest). length s \<le> m" using Cons.prems(2) by simp
  ultimately show ?case using Cons.IH by simp
qed

lemma mainChunks_bounded:
  assumes "\<forall>s\<in>set (contributions tokens). length s \<le> m"
  shows "\<forall>c\<in>set (mainChunks tokens path). length (content c) \<le> max 1500 m"
proof -
  let ?st0 = "\<lparr>chunks = [], currentSection = [], currentContent = [],
               currentTitle = extractTitleFromPath path\<rparr>"
  have "bounded m ?st0" by (simp add: bounded_def trimStart_def)
  then have b: "bounded m (chunkLoop tokens ?st0)" using assms by (rule chunkLoop_bounded)
  show ?thesis using b flushed_bounded [OF b] by (auto simp: mainChunks_def Let_def bounded_def)
qed

text \<open>
  Claim C4, as amended.  The size guard flushes the accumulator before an element that
  would take it past 1500 characters, and then starts the new accumulator with that
  element whole; it never splits an element.  So: the result is either the chunks of the
  main path or the single fallback chunk holding exactly the first 1500 characters of the
  raw input; and when no single contribution (a heading line, or one paragraph, list item,
  block quote or code block with its separator) is longer than \<open>m\<close>, every chunk has at
  most \<open>max 1500 m\<close> characters, hence at most 1500 when every contribution fits in 1500.
\<close>

theorem chunk_size_bound:
  "(chunkTokens tokens content0 path = mainChunks tokens path \<or>
    map content (chunkTokens tokens content0 path) = [take 1500 content0]) \<and>
   ((\<forall>s\<in>set (contributions tokens). length s \<le> m) \<longrightarrow>
      (\<forall>c\<in>set (chunkTokens tokens content0 path). length (content c) \<le> max 1500 m))"
proof (intro conjI impI)
  show "chunkTokens tokens content0 path = mainChunks tokens path \<or>
    map content (chunkTokens tokens content0 path) = [take 1500 content0]"
    by (simp add: chunkTokens_def Let_def)
next
  assume "\<forall>s\<in>set (contributions tokens). length s \<le> m"
  then have "\<forall>c\<in>set (mainChunks tokens path). length (content c) \<le> max 1500 m"
    by (rule mainChunks_bounded)
  then show "\<forall>c\<in>set (chunkTokens tokens content0 path). length (content c) \<le> max 1500 m"
    by (auto simp: chunkTokens_def Let_def)
qed

theorem chunk_size_bound_witness:
  "map length (contributions tokens_setup) = [9, 21] \<and>
   chunkTokens tokens_setup ''# Setup\<newline>\<newline>Run the installer.'' ''docs/setup.md'' =
     [\<lparr>content = ''# Setup\<newline>\<newline>Run the installer.'', title = ''Setup'', tsection = None\<rparr>] \<and>
   list_all (\<lambda>c. length (content c) \<le> 1500)
     (chunkTokens tokens_setup ''# Setup\<newline>\<newline>Run the installer.'' ''docs/setup.md'')"
proof -
  have l: "map length (contributions tokens_setup) = [9, 21]" by code_simp
  have "\<forall>n\<in>set (map length (contributions tokens_setup)). n \<le> 1500" unfolding l by simp
  then have h: "\<forall>s\<in>set (contributions tokens_setup). length s \<le> 1500" by simp
  have e: "chunkTokens tokens_setup ''# Setup\<newline>\<newline>Run the installer.'' ''docs/setup.md'' =
     [\<lparr>content = ''# Setup\<newline>\<newline>Run the installer.'', title = ''Setup'', tsection = None\<rparr>]"
    by code_simp
  have "\<forall>c\<in>set (chunkTokens tokens_setup ''# Setup\<newline>\<newline>Run the installer.'' ''docs/setup.md'').
          length (content c) \<le> 1500"
    using h chunk_size_bound [of tokens_setup "''# Setup\<newline>\<newline>Run the installer.''"
        "''docs/setup.md''" 1500]
    by simp
  then show ?thesis using l e by (simp add: list_all_iff)
qed

text \<open>
  Claim C4 as stated fails: one paragraph of 1501 letters goes through the main path (not
  the fallback) and comes out as one chunk of 1501 characters.
\<close>

theorem chunk_size_counterexample:
  "mainChunks tokens_long_paragraph ''notes.md'' \<noteq> [] \<and>
   map (\<lambda>c. length (content c))
     (chunkTokens tokens_long_paragraph (replicate 1501 CHR ''a'') ''notes.md'') = [1501] \<and>
   \<not> (\<forall>c\<in>set (chunkTokens tokens_long_paragraph (replicate 1501 CHR ''a'') ''notes.md'').
         length (content c) \<le> 1500)"
proof -
  have a: "map (\<lambda>c. length (content c))
     (chunkTokens tokens_long_paragraph (replicate 1501 CHR ''a'') ''notes.md'') = [1501]"
    by code_simp
  have b: "map (\<lambda>c. length (content c)) (mainChunks tokens_long_paragraph ''notes.md'') = [1501]"
    by code_simp
  have c: "\<not> (\<forall>c\<in>set (chunkTokens tokens_long_paragraph (replicate 1501 CHR ''a'') ''notes.md'').
         length (content c) \<le> 1500)"
  proof
    assume "\<forall>c\<in>set (chunkTokens tokens_long_paragraph (replicate 1501 CHR ''a'') ''notes.md'').
         length (content c) \<le> 1500"
    then have "\<forall>n\<in>set (map (\<lambda>c. length (content c))
        (chunkTokens tokens_long_paragraph (replicate 1501 CHR ''a'') ''notes.md'')). n \<le> 1500"
      by simp
    then show False unfolding a by simp
  qed
  from b have "mainChunks tokens_long_paragraph ''notes.md'' \<noteq> []" by auto
  then show ?thesis using a c by blast
qed

subsection \<open>Blank chunks\<close>

text \<open>
  Every chunk pushed by the loop or by the final flush is guarded by
  \<open>currentContent.trim()\<close>, so the main path never yields a blank chunk.
\<close>

lemma onHeading_chunks:
  "chunks (onHeading t rest st) = chunks st \<or>
   (chunks (onHeading t rest st) = chunks st @ [flushed st] \<and> trim (currentContent st) \<noteq> [])"
  by (cases rest) (simp_all add: onHeading_def Let_def)

lemma onContent_chunks:
  "chunks (onContent t rest st) = chunks st \<or>
   (chunks (onContent t rest st) = chunks st @ [flushed st] \<and> trim (currentContent st) \<noteq> [])"
  by (simp add: onContent_def Let_def)

lemma step_chunks:
  "chunks (step t rest st) = chunks st \<or>
   (chunks (step t rest st) = chunks st @ [flushed st] \<and> trim (currentContent st) \<noteq> [])"
  using onHeading_chunks [of t rest st] onContent_chunks [of t rest st]
  by (simp add: step_def)

lemma flushed_nonblank: "trim (currentContent st) \<noteq> [] \<Longrightarrow> trim (content (flushed st)) \<noteq> []"
  by (simp add: flushed_def trim_idem)

lemma chunkLoop_nonblank:
  "\<forall>c\<in>set (chunks st). trim (content c) \<noteq> [] \<Longrightarrow>
   \<forall>c\<in>set (chunks (chunkLoop tokens st)). trim (content c) \<noteq> []"
proof (induction tokens arbitrary: st)
  case Nil
  then show ?case by simp
next
  case (Cons t rest)
  have "\<forall>c\<in>set (chunks (step t rest st)). trim (content c) \<noteq> []"
    using step_chunks [of t rest st] Cons.prems flushed_nonblank [of st] by auto
  then show ?case using Cons.IH by simp
qed

lemma mainChunks_nonempty_content:
  "\<forall>c\<in>set (mainChunks tokens path). trim (content c) \<noteq> []"
proof -
  let ?st = "chunkLoop tokens \<lparr>chunks = [], currentSection = [], currentContent = [],
               currentTitle = extractTitleFromPath path\<rparr>"
  have "\<forall>c\<in>set (chunks ?st). trim (content c) \<noteq> []"
    by (rule chunkLoop_nonblank) simp
  then show ?thesis using flushed_nonblank [of ?st] by (auto simp: mainChunks_def Let_def)
qed

text \<open>
  Claim C8 (no chunk has empty content after trimming, the fallback included) fails on the
  fallback: for a file that holds one line break and nothing else, markdown-it returns no
  token, the main path yields no chunk, and the fallback pushes
  \<open>content.substring(0, 1500)\<close> unguarded, a chunk whose content is blank.
\<close>

theorem fallback_emits_blank_chunk:
  "chunkTokens [] [nl] ''docs/empty.md'' =
     [\<lparr>content = [nl], title = ''empty'', tsection = None\<rparr>] \<and>
   map (\<lambda>c. trim (content c)) (chunkTokens [] [nl] ''docs/empty.md'') = [[]]"
  by code_simp

subsection \<open>Inline text of nested elements\<close>

text \<open>
  Claim C9 (each paragraph, list item or block quote has its inline text appended exactly
  once) fails on a list item: for \<open>- foo\<close> the text is collected at \<open>list_item_open\<close>
  (the scan passes the nested \<open>paragraph_open\<close> and stops at \<open>paragraph_close\<close>) and
  again at the nested \<open>paragraph_open\<close>, so \<open>foo\<close> is in the chunk twice.
\<close>

theorem list_item_text_appended_twice:
  "chunkTokens tokens_list_item ''- foo'' ''docs/list.md'' =
     [\<lparr>content = ''foo \<newline>\<newline>foo'', title = ''list'', tsection = None\<rparr>]"
  by code_simp

subsection \<open>The default title\<close>

text \<open>
  Claim C10 as stated fails: the extension is stripped only when it is \<open>.md\<close>.  For
  \<open>docs/setup-guide.txt\<close> the title keeps \<open>.txt\<close>, where the specification's wording
  gives \<open>setup guide\<close>.
\<close>

theorem default_title_counterexample:
  "extractTitleFromPath ''docs/setup-guide.txt'' = ''setup guide.txt'' \<and>
   spec_normalizedTitle ''docs/setup-guide.txt'' = ''setup guide'' \<and>
   extractTitleFromPath ''docs/setup-guide.txt'' \<noteq> spec_normalizedTitle ''docs/setup-guide.txt''"
  by code_simp

text \<open>
  Claim C10, as amended.  The default title is taken from the last segment of the path:
  when that name ends in \<open>.md\<close> the suffix is removed, any other name is kept whole, and
  in both cases every \<open>-\<close> and \<open>_\<close> becomes a space.
\<close>

theorem default_title_md:
  assumes "CHR ''/'' \<notin> set name" and "p = name \<or> p = dir @ ''/'' @ name"
  shows "(name = base @ ''.md'' \<longrightarrow> extractTitleFromPath p = map sepToSpace base) \<and>
         (\<not> endsWith name ''.md'' \<longrightarrow> extractTitleFromPath p = map sepToSpace name)"
proof -
  have f: "pop_or_empty (split CHR ''/'' p) = name"
    using assms fileName_plain [of name] fileName_dir [of name dir] by auto
  have "endsWith (base @ ''.md'') ''.md''" by (simp add: endsWith_def)
  then show ?thesis by (simp add: extractTitleFromPath_def f Let_def)
qed

theorem default_title_md_witness:
  "CHR ''/'' \<notin> set ''setup-guide_v2.md'' \<and>
   extractTitleFromPath ''docs/setup-guide_v2.md'' = ''setup guide v2'' \<and>
   \<not> endsWith ''README.MD'' ''.md'' \<and>
   extractTitleFromPath ''README.MD'' = ''README.MD''"
proof -
  have a: "CHR ''/'' \<notin> set ''setup-guide_v2.md''" by simp
  have b: "CHR ''/'' \<notin> set ''README.MD''" by simp
  have c: "\<not> endsWith ''README.MD'' ''.md''" by (simp add: endsWith_def)
  have "extractTitleFromPath ''docs/setup-guide_v2.md'' = map sepToSpace ''setup-guide_v2''"
    using default_title_md [OF a, of "''docs/setup-guide_v2.md''" "''docs''" "''setup-guide_v2''"]
    by simp
  moreover have "extractTitleFromPath ''README.MD'' = map sepToSpace ''README.MD''"
    using default_title_md [OF b, of "''README.MD''" "[]" "[]"] c by simp
  ultimately show ?thesis using a c by (simp add: sepToSpace_def)
qed

section \<open>Properties of the vector store\<close>

subsection \<open>The stable sort\<close>

lemma mset_insort_by: "mset (insort_by before x xs) = add_mset x (mset xs)"
  by (induction xs) auto

lemma mset_sort_by: "mset (sort_by before xs) = mset xs"
  unfolding sort_by_def by (induction xs) (auto simp: mset_insort_by)

lemma set_sort_by: "set (sort_by before xs) = set xs"
  using mset_sort_by [of before xs] by (metis set_mset_mset)

lemma length_sort_by: "length (sort_by before xs) = length xs"
  using mset_sort_by [of before xs] by (metis size_mset)

lemma set_insort_by: "set (insort_by before x xs) = insert x (set xs)"
  using mset_insort_by [of before x xs] by (metis set_mset_mset set_mset_add_mset_insert)

lemma sorted_insort_by:
  assumes "total_trans_on A before" "x \<in> A" "set xs \<subseteq> A" "sorted_wrt before xs"
  shows "sorted_wrt before (insort_by before x xs)"
  using assms(3,4)
proof (induction xs)
  case Nil
  then show ?case by simp
next
  case (Cons y ys)
  show ?case
  proof (cases "before x y")
    case True
    have "before x z" if "z \<in> set ys" for z
    proof -
      have "before y z" using Cons.prems(2) that by simp
      then show ?thesis using True assms(1,2) Cons.prems(1) that
        unfolding total_trans_on_def by (meson list.set_intros subsetD)
    qed
    then show ?thesis using True Cons.prems(2) by auto
  next
    case False
    then have yx: "before y x" using assms(1,2) Cons.prems(1) unfolding total_trans_on_def by auto
    have "sorted_wrt before (insort_by before x ys)" using Cons by simp
    then show ?thesis using False yx Cons.prems(2) by (auto simp: set_insort_by)
  qed
qed

lemma sorted_sort_by:
  assumes "total_trans_on A before" "set xs \<subseteq> A"
  shows "sorted_wrt before (sort_by before xs)"
  using assms(2)
proof (induction xs)
  case Nil
  then show ?case by (simp add: sort_by_def)
next
  case (Cons x xs)
  have s: "sorted_wrt before (sort_by before xs)" using Cons by simp
  have "set (sort_by before xs) \<subseteq> A" using Cons.prems by (simp add: set_sort_by)
  then have "sorted_wrt before (insort_by before x (sort_by before xs))"
    using sorted_insort_by [OF assms(1) _ _ s, of x] Cons.prems by simp
  then show ?case by (simp add: sort_by_def)
qed

lemma sorted_wrt_take_drop:
  assumes "sorted_wrt before ys"
  shows "\<forall>x\<in>set (take n ys). \<forall>y\<in>set (drop n ys). before x y"
proof -
  have "sorted_wrt before (take n ys @ drop n ys)" using assms by simp
  then show ?thesis unfolding sorted_wrt_append by blast
qed

lemma mset_take_drop: "mset ys - mset (take n ys) = mset (drop n ys)"
proof -
  have "mset ys = mset (take n ys) + mset (drop n ys)"
    by (metis append_take_drop_id mset_append)
  then show ?thesis by simp
qed

lemma top_of_sorted:
  assumes "total_trans_on A before" "set xs \<subseteq> A"
  shows "mset (take n (sort_by before xs)) \<subseteq># mset xs \<and>
         sorted_wrt before (take n (sort_by before xs)) \<and>
         (\<forall>x\<in>set (take n (sort_by before xs)).
            \<forall>y\<in>#(mset xs - mset (take n (sort_by before xs))). before x y)"
proof -
  let ?s = "sort_by before xs"
  have s: "sorted_wrt before ?s" using assms by (rule sorted_sort_by)
  have m: "mset xs - mset (take n ?s) = mset (drop n ?s)"
    using mset_take_drop [of ?s n] by (simp add: mset_sort_by)
  have "mset (take n ?s) \<subseteq># mset ?s"
    by (metis append_take_drop_id mset_append mset_subset_eq_add_left)
  then have a: "mset (take n ?s) \<subseteq># mset xs" by (simp add: mset_sort_by)
  have b: "sorted_wrt before (take n ?s)" using s by (rule sorted_wrt_take)
  show ?thesis using a b sorted_wrt_take_drop [OF s, of n] unfolding m by simp
qed

lemma slice0_take: "\<exists>k. slice0 xs n = take k xs"
  by (auto simp: slice0_def)

lemma sql_limit_take: "\<exists>k. sql_limit n xs = take k xs"
  unfolding sql_limit_def by (metis take_all order_refl)

lemma total_trans_on_subset: "total_trans_on A before \<Longrightarrow> B \<subseteq> A \<Longrightarrow> total_trans_on B before"
  unfolding total_trans_on_def by (meson subsetD)

lemma total_trans_newest: 
  "total_trans_on UNIV (\<lambda>x y. last_updated (fst y) \<le> last_updated (fst x :: document_row))"
  unfolding total_trans_on_def by auto

subsection \<open>Cosine similarity\<close>

text \<open>The dot product depends on \<open>b\<close> only through what \<open>b[i]\<close> reads at the indices of \<open>a\<close>.\<close>

lemma dotFrom_cong:
  "(\<And>k. k < length a \<Longrightarrow> js_index ar b (i + k) = js_index ar b' (i + k)) \<Longrightarrow>
   dotFrom ar i a b acc = dotFrom ar i a b' acc"
proof (induction a arbitrary: i acc)
  case Nil
  then show ?case by simp
next
  case (Cons v rest)
  have h: "js_index ar b i = js_index ar b' i" using Cons.prems [of 0] by simp
  have "js_index ar b (Suc i + k) = js_index ar b' (Suc i + k)" if "k < length rest" for k
    using Cons.prems [of "Suc k"] that by simp
  then have "dotFrom ar (Suc i) rest b acc' = dotFrom ar (Suc i) rest b' acc'" for acc'
    by (rule Cons.IH)
  then show ?case by (simp add: h)
qed

lemma dotProduct_surplus:
  assumes "length a \<le> length b"
  shows "dotProduct ar a b = dotProduct ar a (take (length a) b)"
  unfolding dotProduct_def
proof (rule dotFrom_cong)
  fix k assume "k < length a"
  then show "js_index ar b (0 + k) = js_index ar (take (length a) b) (0 + k)"
    using assms by (simp add: js_index_def)
qed

lemma dotProduct_short:
  "dotProduct ar a b = dotProduct ar a (b @ replicate (length a - length b) (n_nan ar))"
  unfolding dotProduct_def
proof (rule dotFrom_cong)
  fix k assume "k < length a"
  then show "js_index ar b (0 + k) =
             js_index ar (b @ replicate (length a - length b) (n_nan ar)) (0 + k)"
    by (simp add: js_index_def nth_append)
qed

text \<open>In the sample arithmetic the comparator orders the scores that are not NaN.\<close>

lemma bySimilarity_js_le:
  "similarity a \<noteq> NaN \<Longrightarrow> similarity b \<noteq> NaN \<Longrightarrow>
   bySimilarity exact_arith a b \<longleftrightarrow> js_le (similarity b) (similarity a)"
  by (cases "similarity a"; cases "similarity b") (auto simp: bySimilarity_def exact_arith_def)

lemma js_le_total: "x \<noteq> NaN \<Longrightarrow> y \<noteq> NaN \<Longrightarrow> js_le x y \<or> js_le y x"
  by (cases x; cases y) auto

lemma js_le_trans: "js_le x y \<Longrightarrow> js_le y z \<Longrightarrow> js_le x z"
  by (cases x; cases y; cases z) auto

lemma total_trans_exact:
  "total_trans_on {r :: jsnum SearchResult. similarity r \<noteq> NaN} (bySimilarity exact_arith)"
  unfolding total_trans_on_def
proof (intro conjI ballI impI)
  fix a b :: "jsnum SearchResult"
  assume "a \<in> {r. similarity r \<noteq> NaN}" "b \<in> {r. similarity r \<noteq> NaN}"
  then have n: "similarity a \<noteq> NaN" "similarity b \<noteq> NaN" by simp_all
  show "bySimilarity exact_arith a b \<or> bySimilarity exact_arith b a"
    using js_le_total [OF n] bySimilarity_js_le [OF n] bySimilarity_js_le [OF n(2) n(1)] by blast
next
  fix a b c :: "jsnum SearchResult"
  assume "a \<in> {r. similarity r \<noteq> NaN}" "b \<in> {r. similarity r \<noteq> NaN}"
    "c \<in> {r. similarity r \<noteq> NaN}"
  then have n: "similarity a \<noteq> NaN" "similarity b \<noteq> NaN" "similarity c \<noteq> NaN" by simp_all
  assume "bySimilarity exact_arith a b" "bySimilarity exact_arith b c"
  then have "js_le (similarity b) (similarity a)" "js_le (similarity c) (similarity b)"
    using bySimilarity_js_le n by blast+
  then have "js_le (similarity c) (similarity a)" using js_le_trans by blast
  then show "bySimilarity exact_arith a c" using bySimilarity_js_le [OF n(1) n(3)] by simp
qed

lemma total_trans_exact_scores:
  assumes "NaN \<notin> set (map similarity rs)"
  shows "total_trans_on (set rs) (bySimilarity exact_arith)"
proof -
  have "similarity r \<noteq> NaN" if "r \<in> set rs" for r
  proof
    assume "similarity r = NaN"
    then have "NaN \<in> set (map similarity rs)" using that by (metis image_eqI set_map)
    then show False using assms by simp
  qed
  then have "set rs \<subseteq> {r. similarity r \<noteq> NaN}" by auto
  with total_trans_exact show ?thesis by (rule total_trans_on_subset)
qed

subsection \<open>Similarity search\<close>

lemma mset_subset_set: "mset xs \<subseteq># mset ys \<Longrightarrow> set xs \<subseteq> set ys"
  using set_mset_mono [of "mset xs" "mset ys"] by simp

lemma joined_snd: "r \<in> set (joined db) \<Longrightarrow> snd r \<in> set (embeddings db)"
  by (auto simp: joined_def)

lemma set_candidates: "set (candidates db rf) \<subseteq> set (joined db)"
  by (auto simp: candidates_def split: option.splits)

lemma fetched_newest:
  "mset (fetched db limit rf) \<subseteq># mset (candidates db rf) \<and>
   (\<forall>x\<in>set (fetched db limit rf).
      \<forall>y\<in>#(mset (candidates db rf) - mset (fetched db limit rf)).
        last_updated (fst y) \<le> last_updated (fst x))"
proof -
  obtain k where k: "fetched db limit rf = take k (newest_first (candidates db rf))"
    unfolding fetched_def using sql_limit_take by blast
  have u: "set (candidates db rf) \<subseteq> UNIV" by simp
  note t = top_of_sorted [OF total_trans_newest u, of k]
  show ?thesis
    unfolding k newest_first_def
    by (intro conjI) (rule conjunct1 [OF t], rule conjunct2 [OF conjunct2 [OF t]])
qed

lemma set_fetched: "set (fetched db limit rf) \<subseteq> set (candidates db rf)"
  using fetched_newest [of db limit rf] mset_subset_set by blast

lemma candidates_eq:
  "candidates db rf =
     (case rf of
        None \<Rightarrow> joined db
      | Some rs \<Rightarrow> if rs = [] then joined db
                   else filter (\<lambda>r. row_repo (fst r) \<in> set rs) (joined db))"
  by (simp add: candidates_def split: option.splits)

lemma fetched_length:
  "length (fetched db limit rf) =
     (if limit < 0 then length (candidates db rf)
      else min (nat (limit * 3)) (length (candidates db rf)))"
  by (simp add: fetched_def sql_limit_def newest_first_def length_sort_by min.commute)

lemma searchSimilar_length:
  "length (searchSimilar ar db q limit rf) =
     (if limit < 0 then length (fetched db limit rf) - nat (- limit)
      else min (nat limit) (length (fetched db limit rf)))"
  by (simp add: searchSimilar_def slice0_def length_sort_by min.commute)

lemma searchSimilar_mset:
  "mset (searchSimilar ar db q limit rf) \<subseteq># mset (map (score ar q) (fetched db limit rf))"
proof -
  let ?s = "sort_by (bySimilarity ar) (map (score ar q) (fetched db limit rf))"
  obtain k where k: "searchSimilar ar db q limit rf = take k ?s"
    unfolding searchSimilar_def using slice0_take by blast
  have "mset (take k ?s) \<subseteq># mset ?s"
    by (metis append_take_drop_id mset_append mset_subset_eq_add_left)
  then show ?thesis unfolding k by (simp add: mset_sort_by)
qed

lemma searchSimilar_top:
  assumes "total_trans_on (set (map (score ar q) (fetched db limit rf))) (bySimilarity ar)"
  shows "sorted_wrt (bySimilarity ar) (searchSimilar ar db q limit rf) \<and>
     (\<forall>x\<in>set (searchSimilar ar db q limit rf).
        \<forall>y\<in>#(mset (map (score ar q) (fetched db limit rf)) -
              mset (searchSimilar ar db q limit rf)).
          bySimilarity ar x y)"
proof -
  let ?scored = "map (score ar q) (fetched db limit rf)"
  obtain k where k: "searchSimilar ar db q limit rf = take k (sort_by (bySimilarity ar) ?scored)"
    unfolding searchSimilar_def using slice0_take by blast
  have u: "set ?scored \<subseteq> set ?scored" by simp
  note t = top_of_sorted [OF assms u, of k]
  show ?thesis
    unfolding k by (intro conjI) (rule conjunct1 [OF conjunct2 [OF t]], rule conjunct2 [OF conjunct2 [OF t]])
qed

lemmas store_eval =
  upsert_def addDocument_def addDocumentF_def insertDoc_def insertEmbedding_def embeddingBuffer_def
  Let_def delete_documents_def next_document_id_def next_embedding_id_def VectorStore_new_def
  mkDoc_def row_key_def chunk_key_def searchSimilar_def spec_searchSimilar_def fetched_def
  candidates_def joined_def newest_first_def sort_by_def sql_limit_def slice0_def score_def
  toChunk_def bySimilarity_def deleteRepo_def getDocumentsByRepo_def exact_arith_def

lemmas cosine_eval = cosineSimilarity_def magnitude_def dotProduct_def js_index_def exact_arith_def

lemma cosine_orthogonal: "cosineSimilarity exact_arith [Num 1, Num 0] [Num 0, Num 1] = Num 0"
  by (simp add: cosine_eval)

lemma cosine_same: "cosineSimilarity exact_arith [Num 1, Num 0] [Num 1, Num 0] = Num 1"
  by (simp add: cosine_eval)

lemma cosine_opposite: "cosineSimilarity exact_arith [Num 1, Num 0] [Num (- 1), Num 0] = Num (- 1)"
  by (simp add: cosine_eval)

lemmas cosine_samples =
  cosine_orthogonal [unfolded exact_arith_def] cosine_same [unfolded exact_arith_def]
  cosine_opposite [unfolded exact_arith_def]

text \<open>
  Claim C1, as amended.  The candidate rows are all joined rows, or, under a non-empty
  filter, those whose repository is in it.  The query orders them newest first and
  fetches only the first \<open>limit * 3\<close> (all of them when \<open>limit\<close> is negative): the fetched
  rows are candidates, \<open>min (limit * 3) n\<close> of the \<open>n\<close> candidates, and every candidate
  left out is no newer than every fetched one.  Only the fetched rows are scored.  The
  result is made of scored fetched rows, \<open>min limit m\<close> of the \<open>m\<close> fetched ones (for
  negative \<open>limit\<close>, all but the last \<open>- limit\<close>).  When the comparator orders the fetched
  scores consistently (it is total and transitive on them), the result is in the
  comparator's order and no fetched row left out should stand, by the comparator, in front
  of a returned one.  So the result is the top of the \<open>limit * 3\<close> newest candidates, not
  of all candidates.
\<close>

theorem searchSimilar_top_of_newest:
  "candidates db rf =
     (case rf of
        None \<Rightarrow> joined db
      | Some rs \<Rightarrow> if rs = [] then joined db
                   else filter (\<lambda>r. row_repo (fst r) \<in> set rs) (joined db)) \<and>
   mset (fetched db limit rf) \<subseteq># mset (candidates db rf) \<and>
   length (fetched db limit rf) =
     (if limit < 0 then length (candidates db rf)
      else min (nat (limit * 3)) (length (candidates db rf))) \<and>
   (\<forall>x\<in>set (fetched db limit rf).
      \<forall>y\<in>#(mset (candidates db rf) - mset (fetched db limit rf)).
        last_updated (fst y) \<le> last_updated (fst x)) \<and>
   mset (searchSimilar ar db q limit rf) \<subseteq># mset (map (score ar q) (fetched db limit rf)) \<and>
   length (searchSimilar ar db q limit rf) =
     (if limit < 0 then length (fetched db limit rf) - nat (- limit)
      else min (nat limit) (length (fetched db limit rf))) \<and>
   (total_trans_on (set (map (score ar q) (fetched db limit rf))) (bySimilarity ar) \<longrightarrow>
      sorted_wrt (bySimilarity ar) (searchSimilar ar db q limit rf) \<and>
      (\<forall>x\<in>set (searchSimilar ar db q limit rf).
         \<forall>y\<in>#(mset (map (score ar q) (fetched db limit rf)) -
               mset (searchSimilar ar db q limit rf)).
           bySimilarity ar x y))"
proof (intro conjI impI)
  show "candidates db rf =
     (case rf of
        None \<Rightarrow> joined db
      | Some rs \<Rightarrow> if rs = [] then joined db
                   else filter (\<lambda>r. row_repo (fst r) \<in> set rs) (joined db))"
    by (rule candidates_eq)
  show "mset (fetched db limit rf) \<subseteq># mset (candidates db rf)"
    using fetched_newest [of db limit rf] by (rule conjunct1)
  show "length (fetched db limit rf) =
     (if limit < 0 then length (candidates db rf)
      else min (nat (limit * 3)) (length (candidates db rf)))"
    by (rule fetched_length)
  show "\<forall>x\<in>set (fetched db limit rf).
       \<forall>y\<in>#(mset (candidates db rf) - mset (fetched db limit rf)).
         last_updated (fst y) \<le> last_updated (fst x)"
    using fetched_newest [of db limit rf] by (rule conjunct2)
  show "mset (searchSimilar ar db q limit rf) \<subseteq># mset (map (score ar q) (fetched db limit rf))"
    by (rule searchSimilar_mset)
  show "length (searchSimilar ar db q limit rf) =
     (if limit < 0 then length (fetched db limit rf) - nat (- limit)
      else min (nat limit) (length (fetched db limit rf)))"
    by (rule searchSimilar_length)
next
  assume h: "total_trans_on (set (map (score ar q) (fetched db limit rf))) (bySimilarity ar)"
  note t = searchSimilar_top [OF h]
  show "sorted_wrt (bySimilarity ar) (searchSimilar ar db q limit rf)"
    by (rule conjunct1 [OF t])
  show "\<forall>x\<in>set (searchSimilar ar db q limit rf).
         \<forall>y\<in>#(mset (map (score ar q) (fetched db limit rf)) -
               mset (searchSimilar ar db q limit rf)).
           bySimilarity ar x y"
    by (rule conjunct2 [OF t])
qed

theorem searchSimilar_top_of_newest_witness:
  "total_trans_on (set (map (score exact_arith [Num 1, Num 0]) (fetched store_ranked 1 None)))
     (bySimilarity exact_arith) \<and>
   length (candidates store_ranked None) = 4 \<and>
   map (\<lambda>r. (filePath (document r), similarity r))
     (map (score exact_arith [Num 1, Num 0]) (fetched store_ranked 1 None)) =
     [(''r4.md'', Num 0), (''r3.md'', Num 1), (''r2.md'', Num (- 1))] \<and>
   map (\<lambda>r. (filePath (document r), similarity r))
     (searchSimilar exact_arith store_ranked [Num 1, Num 0] 1 None) = [(''r3.md'', Num 1)] \<and>
   length (fetched store_ranked 1 None) = 3 \<and>
   sorted_wrt (bySimilarity exact_arith) (searchSimilar exact_arith store_ranked [Num 1, Num 0] 1 None)"
proof -
  have f: "map (\<lambda>r. (filePath (document r), similarity r))
     (map (score exact_arith [Num 1, Num 0]) (fetched store_ranked 1 None)) =
     [(''r4.md'', Num 0), (''r3.md'', Num 1), (''r2.md'', Num (- 1))]"
    by (simp add: store_ranked_def store_eval cosine_samples)
  have "map snd (map (\<lambda>r. (filePath (document r), similarity r))
     (map (score exact_arith [Num 1, Num 0]) (fetched store_ranked 1 None))) =
     [Num 0, Num 1, Num (- 1)]"
    unfolding f by simp
  then have "map similarity (map (score exact_arith [Num 1, Num 0]) (fetched store_ranked 1 None)) =
     [Num 0, Num 1, Num (- 1)]"
    by (simp add: comp_def)
  then have "NaN \<notin> set (map similarity
      (map (score exact_arith [Num 1, Num 0]) (fetched store_ranked 1 None)))"
    by simp
  then have h: "total_trans_on
      (set (map (score exact_arith [Num 1, Num 0]) (fetched store_ranked 1 None)))
      (bySimilarity exact_arith)"
    by (rule total_trans_exact_scores)
  have c: "length (candidates store_ranked None) = 4"
    by (simp add: store_ranked_def store_eval)
  have r: "map (\<lambda>r. (filePath (document r), similarity r))
     (searchSimilar exact_arith store_ranked [Num 1, Num 0] 1 None) = [(''r3.md'', Num 1)]"
    by (simp add: store_ranked_def store_eval cosine_samples)
  note t = searchSimilar_top_of_newest [of store_ranked None 1 exact_arith "[Num 1, Num 0]"]
  have "length (fetched store_ranked 1 None) =
          (if (1 :: int) < 0 then length (candidates store_ranked None)
           else min (nat (1 * 3)) (length (candidates store_ranked None)))"
    using t by blast
  then have l: "length (fetched store_ranked 1 None) = 3" unfolding c by simp
  have s: "sorted_wrt (bySimilarity exact_arith)
             (searchSimilar exact_arith store_ranked [Num 1, Num 0] 1 None)"
    using t h by blast
  show ?thesis using h c f r l s by blast
qed

text \<open>
  Claim C1 as stated fails: with four chunks in the store and \<open>limit = 1\<close>, only the
  three newest are fetched and scored.  The oldest chunk equals the query (similarity 1)
  and is the global top-1; \<open>searchSimilar\<close> returns the newest chunk, of similarity 0.
\<close>

theorem searchSimilar_not_global_top:
  "map (\<lambda>r. (filePath (document r), similarity r))
     (searchSimilar exact_arith store4 [Num 1, Num 0] 1 None) = [(''d4.md'', Num 0)] \<and>
   map (\<lambda>r. (filePath (document r), similarity r))
     (spec_searchSimilar exact_arith store4 [Num 1, Num 0] 1 None) = [(''d1.md'', Num 1)] \<and>
   searchSimilar exact_arith store4 [Num 1, Num 0] 1 None \<noteq>
     spec_searchSimilar exact_arith store4 [Num 1, Num 0] 1 None"
proof -
  have a: "map (\<lambda>r. (filePath (document r), similarity r))
     (searchSimilar exact_arith store4 [Num 1, Num 0] 1 None) = [(''d4.md'', Num 0)]"
    by (simp add: store4_def store_eval cosine_samples)
  have b: "map (\<lambda>r. (filePath (document r), similarity r))
     (spec_searchSimilar exact_arith store4 [Num 1, Num 0] 1 None) = [(''d1.md'', Num 1)]"
    by (simp add: store4_def store_eval cosine_samples)
  have "searchSimilar exact_arith store4 [Num 1, Num 0] 1 None \<noteq>
     spec_searchSimilar exact_arith store4 [Num 1, Num 0] 1 None"
  proof
    assume "searchSimilar exact_arith store4 [Num 1, Num 0] 1 None =
     spec_searchSimilar exact_arith store4 [Num 1, Num 0] 1 None"
    then show False using a b by simp
  qed
  then show ?thesis using a b by blast
qed

subsection \<open>Upserts\<close>

lemma newRow_simps [simp]:
  "row_id (newRow n doc) = n"
  "row_key (newRow n doc) = chunk_key doc"
  "row_repo (newRow n doc) = repo doc"
  by (simp_all add: newRow_def row_key_def chunk_key_def)

lemma newEmb_simps [simp]:
  "document_id (newEmb db n buf) = n" "emb_blob (newEmb db n buf) = buf"
  by (simp_all add: newEmb_def)

lemma fold_max_ge: "(m :: nat) \<le> fold max xs m"
  by (induction xs arbitrary: m) (auto intro: order_trans [OF max.cobounded2])

lemma fold_max_mem: "(x :: nat) \<in> set xs \<Longrightarrow> x \<le> fold max xs m"
proof (induction xs arbitrary: m)
  case Nil
  then show ?case by simp
next
  case (Cons y ys)
  show ?case
  proof (cases "x = y")
    case True
    have "max y m \<le> fold max ys (max y m)" by (rule fold_max_ge)
    then show ?thesis using True by simp
  next
    case False
    then show ?thesis using Cons by simp
  qed
qed

lemma next_document_id_fresh:
  "d \<in> set (documents db) \<Longrightarrow> row_id d < next_document_id db"
  using fold_max_mem [of "row_id d" "map row_id (documents db)" "documents_seq db"]
  by (simp add: next_document_id_def less_Suc_eq_le)

lemma next_document_id_seq: "documents_seq db < next_document_id db"
  using fold_max_ge [of "documents_seq db" "map row_id (documents db)"]
  by (simp add: next_document_id_def less_Suc_eq_le)

lemma insertDoc_eq:
  "insertDoc doc db =
     (next_document_id db,
      \<lparr>documents = filter (\<lambda>d. row_key d \<noteq> chunk_key doc) (documents db) @
                     [newRow (next_document_id db) doc],
       embeddings = (if foreign_keys db
                     then filter (\<lambda>e. document_id e \<notin>
                            set (map row_id (filter (\<lambda>d. row_key d = chunk_key doc) (documents db))))
                          (embeddings db)
                     else embeddings db),
       documents_seq = next_document_id db,
       foreign_keys = foreign_keys db\<rparr>)"
  by (simp add: insertDoc_def delete_documents_def Let_def newRow_def)

lemma insertDoc_delete:
  "snd (insertDoc doc db) =
     (delete_documents (\<lambda>d. row_key d = chunk_key doc) db)
       \<lparr>documents := documents (delete_documents (\<lambda>d. row_key d = chunk_key doc) db) @
                        [newRow (next_document_id db) doc],
        documents_seq := next_document_id db\<rparr>"
  by (simp add: insertDoc_def Let_def newRow_def)

lemma addDocumentF_cases:
  "addDocumentF ar FirstWriteFails doc db = (Inl SqliteError, db)"
  "addDocumentF ar SecondWriteFails doc db = (Inl SqliteError, snd (insertDoc doc db))"
  "addDocumentF ar NoFault doc db =
     (Inr (next_document_id db),
      (snd (insertDoc doc db))\<lparr>embeddings := embeddings (snd (insertDoc doc db)) @
         [newEmb (snd (insertDoc doc db)) (next_document_id db) (embeddingBuffer ar doc)]\<rparr>)"
  by (simp_all add: addDocumentF_def insertEmbedding_def insertDoc_eq newEmb_def)

text \<open>What an upsert that got past its first write leaves in the two tables.\<close>

lemma upsert_documents:
  "f \<noteq> FirstWriteFails \<Longrightarrow>
   documents (snd (addDocumentF ar f doc db)) =
     filter (\<lambda>d. row_key d \<noteq> chunk_key doc) (documents db) @ [newRow (next_document_id db) doc]"
  by (cases f) (simp_all add: addDocumentF_cases insertDoc_eq)

lemma upsert_seq:
  "f \<noteq> FirstWriteFails \<Longrightarrow> documents_seq (snd (addDocumentF ar f doc db)) = next_document_id db"
  by (cases f) (simp_all add: addDocumentF_cases insertDoc_eq)

lemma upsert_foreign_keys: "foreign_keys (snd (addDocumentF ar f doc db)) = foreign_keys db"
  by (cases f) (simp_all add: addDocumentF_cases insertDoc_eq)

lemma upsert_embeddings_old:
  "e \<in> set (embeddings (snd (addDocumentF ar f doc db))) \<Longrightarrow>
   e \<in> set (embeddings db) \<or> (f = NoFault \<and> e = newEmb (snd (insertDoc doc db)) (next_document_id db) (embeddingBuffer ar doc))"
  by (cases f) (auto simp: addDocumentF_cases insertDoc_eq split: if_splits)

lemma delete_documents_foreign_keys [simp]:
  "foreign_keys (delete_documents gone db) = foreign_keys db"
  by (simp add: delete_documents_def)

subsection \<open>The invariants hold in every reachable store\<close>

lemma store_ok_fresh: "store_ok (VectorStore_new fk)"
  by (simp add: store_ok_def VectorStore_new_def)

lemma store_ok_upsert:
  assumes "store_ok db"
  shows "store_ok (snd (addDocumentF ar f doc db))"
proof (cases "f = FirstWriteFails")
  case True
  then show ?thesis using assms by (simp add: addDocumentF_cases)
next
  case False
  let ?n = "next_document_id db"
  let ?keep = "filter (\<lambda>d. row_key d \<noteq> chunk_key doc) (documents db)"
  have ids: "distinct (map row_id ?keep)" using assms by (simp add: store_ok_def distinct_map_filter)
  have keys: "distinct (map row_key ?keep)" using assms by (simp add: store_ok_def distinct_map_filter)
  have fresh: "?n \<notin> row_id ` set ?keep"
  proof
    assume "?n \<in> row_id ` set ?keep"
    then obtain x where "x \<in> set (documents db)" "row_id x = ?n" by auto
    then show False using next_document_id_fresh [of x db] by simp
  qed
  have key: "chunk_key doc \<notin> row_key ` set ?keep" by auto
  have "document_id e \<le> ?n" if "e \<in> set (embeddings (snd (addDocumentF ar f doc db)))" for e
  proof -
    from upsert_embeddings_old [OF that] show ?thesis
    proof
      assume "e \<in> set (embeddings db)"
      then have "document_id e \<le> documents_seq db" using assms by (simp add: store_ok_def)
      then show ?thesis using next_document_id_seq [of db] by simp
    next
      assume "f = NoFault \<and> e = newEmb (snd (insertDoc doc db)) ?n (embeddingBuffer ar doc)"
      then show ?thesis by simp
    qed
  qed
  then show ?thesis
    using ids keys fresh key by (simp add: store_ok_def upsert_documents [OF False] upsert_seq [OF False])
qed

lemma store_ok_delete: "store_ok db \<Longrightarrow> store_ok (deleteRepo r db)"
  by (auto simp: store_ok_def deleteRepo_def delete_documents_def distinct_map_filter)

lemma no_orphans_delete_documents:
  assumes "foreign_keys db" "no_orphans db"
  shows "no_orphans (delete_documents gone db)"
  unfolding no_orphans_def
proof
  fix e assume e: "e \<in> set (embeddings (delete_documents gone db))"
  then have e0: "e \<in> set (embeddings db)"
    and keep: "document_id e \<notin> set (map row_id (filter gone (documents db)))"
    using assms(1) by (simp_all add: delete_documents_def)
  obtain d where d: "d \<in> set (documents db)" "row_id d = document_id e"
    using assms(2) e0 unfolding no_orphans_def by blast
  have "\<not> gone d"
  proof
    assume "gone d"
    then have "d \<in> set (filter gone (documents db))" using d(1) by simp
    then have "row_id d \<in> set (map row_id (filter gone (documents db)))"
      by (metis image_eqI set_map)
    then show False using keep d(2) by simp
  qed
  then have "d \<in> set (documents (delete_documents gone db))"
    using d(1) by (simp add: delete_documents_def)
  then show "\<exists>d\<in>set (documents (delete_documents gone db)). row_id d = document_id e"
    using d(2) by blast
qed

lemma no_orphans_upsert:
  assumes "foreign_keys db" "no_orphans db"
  shows "no_orphans (snd (addDocumentF ar f doc db))"
proof -
  let ?del = "delete_documents (\<lambda>d. row_key d = chunk_key doc) db"
  have d: "no_orphans ?del" using assms by (rule no_orphans_delete_documents)
  have i: "no_orphans (snd (insertDoc doc db))"
    using d unfolding insertDoc_delete no_orphans_def by auto
  show ?thesis
  proof (cases f)
    case NoFault
    then show ?thesis using i unfolding no_orphans_def
      by (auto simp: addDocumentF_cases insertDoc_delete)
  next
    case FirstWriteFails
    then show ?thesis using assms(2) by (simp add: addDocumentF_cases)
  next
    case SecondWriteFails
    then show ?thesis using i by (simp add: addDocumentF_cases)
  qed
qed

lemma reachable_invariants:
  "reachable ar fk db \<Longrightarrow> foreign_keys db = fk \<and> store_ok db"
proof (induction rule: reachable.induct)
  case (fresh fk)
  then show ?case by (simp add: VectorStore_new_def store_ok_def)
next
  case (upsert fk db f doc)
  then show ?case by (simp add: upsert_foreign_keys store_ok_upsert)
next
  case (delete fk db r)
  then show ?case by (simp add: deleteRepo_def store_ok_delete [unfolded deleteRepo_def])
qed

lemma reachable_no_orphans:
  "reachable ar fk db \<Longrightarrow> fk \<longrightarrow> no_orphans db"
proof (induction rule: reachable.induct)
  case (fresh fk)
  then show ?case by (simp add: VectorStore_new_def no_orphans_def)
next
  case (upsert fk db f doc)
  have "foreign_keys db = fk" using reachable_invariants [OF upsert.hyps] by simp
  then show ?case using upsert.IH by (auto simp: no_orphans_upsert)
next
  case (delete fk db r)
  have "foreign_keys db = fk" using reachable_invariants [OF delete.hyps] by simp
  then show ?case using delete.IH by (auto simp: deleteRepo_def no_orphans_delete_documents)
qed

lemma reachable_store4: "reachable exact_arith True store4"
  unfolding store4_def upsert_def addDocument_def by (intro reachable.intros)

subsection \<open>The join after an upsert\<close>







lemma chunk_key_toChunk [simp]: "chunk_key (toChunk r) = row_key (fst r)"
  by (simp add: toChunk_def chunk_key_def row_key_def)



subsection \<open>Embedding length\<close>

text \<open>
  Claim C2, as amended.  Nothing checks the length of an embedding, and no input is
  rejected.  \<open>addDocument\<close> succeeds on every chunk and appends its embedding at the
  length it has, every component put through a 32-bit float.  \<open>searchSimilar\<close> returns as
  many results as the limit and the number of fetched rows give, whatever the lengths of
  the vectors.  \<open>cosineSimilarity\<close> divides the dot product by the product of the two
  magnitudes (and is 0 when a magnitude is 0); the dot product pairs the components by
  index over the length of the query: of a longer stored vector only the first components
  count, the surplus is left out without notice, and a shorter stored vector is read as if
  it were filled up with \<open>undefined\<close>.
\<close>

theorem no_dimension_check:
  "fst (addDocument ar doc db) = Inr (next_document_id db) \<and>
   map emb_blob (embeddings (snd (addDocument ar doc db))) =
     map emb_blob (embeddings (snd (insertDoc doc db))) @ [map (n_fround ar) (embedding doc)] \<and>
   length (searchSimilar ar db q limit rf) =
     (if limit < 0 then length (fetched db limit rf) - nat (- limit)
      else min (nat limit) (length (fetched db limit rf))) \<and>
   cosineSimilarity ar a b =
     (if n_is_zero ar (magnitude ar a) \<or> n_is_zero ar (magnitude ar b) then n_zero ar
      else n_div ar (dotProduct ar a b) (n_mul ar (magnitude ar a) (magnitude ar b))) \<and>
   (length a \<le> length b \<longrightarrow> dotProduct ar a b = dotProduct ar a (take (length a) b)) \<and>
   dotProduct ar a b = dotProduct ar a (b @ replicate (length a - length b) (n_nan ar))"
proof (intro conjI impI)
  show "fst (addDocument ar doc db) = Inr (next_document_id db)"
    by (simp add: addDocument_def addDocumentF_cases)
  show "map emb_blob (embeddings (snd (addDocument ar doc db))) =
     map emb_blob (embeddings (snd (insertDoc doc db))) @ [map (n_fround ar) (embedding doc)]"
    by (simp add: addDocument_def addDocumentF_cases embeddingBuffer_def)
  show "length (searchSimilar ar db q limit rf) =
     (if limit < 0 then length (fetched db limit rf) - nat (- limit)
      else min (nat limit) (length (fetched db limit rf)))"
    by (rule searchSimilar_length)
  show "cosineSimilarity ar a b =
     (if n_is_zero ar (magnitude ar a) \<or> n_is_zero ar (magnitude ar b) then n_zero ar
      else n_div ar (dotProduct ar a b) (n_mul ar (magnitude ar a) (magnitude ar b)))"
    by (simp add: cosineSimilarity_def Let_def)
  show "dotProduct ar a b = dotProduct ar a (b @ replicate (length a - length b) (n_nan ar))"
    by (rule dotProduct_short)
next
  assume "length a \<le> length b"
  then show "dotProduct ar a b = dotProduct ar a (take (length a) b)"
    by (rule dotProduct_surplus)
qed

theorem no_dimension_check_witness:
  "length [Num 1, Num 0] \<le> length [Num 1, Num 0, Num 0] \<and>
   dotProduct exact_arith [Num 1, Num 0] [Num 1, Num 0, Num 0] =
     dotProduct exact_arith [Num 1, Num 0] [Num 1, Num 0] \<and>
   cosineSimilarity exact_arith [Num 1, Num 0] [Num 1, Num 0, Num 0] = Num 1 \<and>
   cosineSimilarity exact_arith [Num 1, Num 0, Num 0] [Num 1, Num 0] = NaN"
proof -
  have l: "length [Num 1, Num 0] \<le> length [Num 1, Num 0, Num 0]" by simp
  have "dotProduct exact_arith [Num 1, Num 0] [Num 1, Num 0, Num 0] =
        dotProduct exact_arith [Num 1, Num 0]
          (take (length [Num 1, Num 0]) [Num 1, Num 0, Num 0])"
    using no_dimension_check [of exact_arith _ _ _ _ _ "[Num 1, Num 0]" "[Num 1, Num 0, Num 0]"] l
    by blast
  then have d: "dotProduct exact_arith [Num 1, Num 0] [Num 1, Num 0, Num 0] =
     dotProduct exact_arith [Num 1, Num 0] [Num 1, Num 0]"
    by simp
  have a: "cosineSimilarity exact_arith [Num 1, Num 0] [Num 1, Num 0, Num 0] = Num 1"
    by (simp add: cosine_eval)
  have b: "cosineSimilarity exact_arith [Num 1, Num 0, Num 0] [Num 1, Num 0] = NaN"
    by (simp add: cosine_eval)
  show ?thesis using l d a b by blast
qed

text \<open>
  Claim C2 as stated fails: into a store holding a two-component embedding, a chunk with
  a three-component embedding is upserted.  The call returns its row id, the row is
  stored, and a two-component query scores it 1.
\<close>

theorem mismatched_embedding_accepted:
  "fst (addDocument exact_arith docLong (upsert docA (VectorStore_new True))) = Inr 2 \<and>
   map emb_blob (embeddings (upsert docLong (upsert docA (VectorStore_new True)))) =
     [[Num 1, Num 0], [Num 1, Num 0, Num 0]] \<and>
   map (\<lambda>r. (filePath (document r), similarity r))
     (searchSimilar exact_arith (upsert docLong (upsert docA (VectorStore_new True)))
        [Num 1, Num 0] 10 None) =
     [(''long.md'', Num 1), (''README.md'', Num 1)]"
proof -
  have c: "cosineSimilarity exact_arith [Num 1, Num 0] [Num 1, Num 0, Num 0] = Num 1"
    by (simp add: cosine_eval)
  show ?thesis
    by (simp add: docA_def docLong_def store_eval c [unfolded exact_arith_def] cosine_samples)
qed

subsection \<open>Upsert replaces\<close>




subsection \<open>Cascade delete\<close>

lemma cascade_on_delete:
  assumes "foreign_keys db" "d \<in> set (documents db)" "gone d"
    "e \<in> set (embeddings (delete_documents gone db))"
  shows "document_id e \<noteq> row_id d"
proof
  assume eq: "document_id e = row_id d"
  have "d \<in> set (filter gone (documents db))" using assms(2,3) by simp
  then have "row_id d \<in> set (map row_id (filter gone (documents db)))"
    by (metis image_eqI set_map)
  moreover have "document_id e \<notin> set (map row_id (filter gone (documents db)))"
    using assms(1,4) by (simp add: delete_documents_def)
  ultimately show False using eq by simp
qed

lemma cascade_on_upsert:
  assumes "foreign_keys db" "d \<in> set (documents db)" "row_key d = chunk_key doc"
    "f \<noteq> FirstWriteFails" "e \<in> set (embeddings (snd (addDocumentF ar f doc db)))"
  shows "document_id e \<noteq> row_id d"
proof -
  let ?del = "delete_documents (\<lambda>d. row_key d = chunk_key doc) db"
  have lt: "row_id d < next_document_id db" using assms(2) by (rule next_document_id_fresh)
  have emb: "embeddings (snd (insertDoc doc db)) = embeddings ?del"
    by (simp add: insertDoc_delete)
  consider (old) "e \<in> set (embeddings ?del)" | (new) "document_id e = next_document_id db"
    using assms(4,5) by (cases f) (auto simp: addDocumentF_cases emb)
  then show ?thesis
  proof cases
    case old
    show ?thesis using assms(1,2,3) old by (rule cascade_on_delete)
  next
    case new
    then show ?thesis using lt by simp
  qed
qed

text \<open>
  Claim C5.  With the library as shipped (connections that enforce foreign keys), in
  every store the program can reach each embedding row refers to an existing document row;
  and when \<open>deleteRepo\<close> removes a document row, or an upsert supersedes it, no embedding
  row referring to it is left.
\<close>

theorem cascade_delete:
  assumes "reachable ar True db"
  shows "no_orphans db \<and>
         (\<forall>d\<in>set (documents db). row_repo d = r \<longrightarrow>
            (\<forall>e\<in>set (embeddings (deleteRepo r db)). document_id e \<noteq> row_id d)) \<and>
         (\<forall>d\<in>set (documents db). row_key d = chunk_key doc \<and> f \<noteq> FirstWriteFails \<longrightarrow>
            (\<forall>e\<in>set (embeddings (snd (addDocumentF ar f doc db))). document_id e \<noteq> row_id d))"
proof -
  have fk: "foreign_keys db" using reachable_invariants [OF assms] by simp
  have no: "no_orphans db" using reachable_no_orphans [OF assms] by simp
  have a: "document_id e \<noteq> row_id d"
    if "d \<in> set (documents db)" "row_repo d = r" "e \<in> set (embeddings (deleteRepo r db))" for d e
    using fk that unfolding deleteRepo_def by (rule cascade_on_delete)
  have b: "document_id e \<noteq> row_id d"
    if "d \<in> set (documents db)" "row_key d = chunk_key doc" "f \<noteq> FirstWriteFails"
      "e \<in> set (embeddings (snd (addDocumentF ar f doc db)))" for d e
    using fk that by (rule cascade_on_upsert)
  show ?thesis using no a b by blast
qed

theorem cascade_delete_witness:
  "reachable exact_arith True (deleteRepo ''a/b'' store4) \<and>
   map row_id (documents store4) = [1, 2, 3, 4] \<and>
   map document_id (embeddings store4) = [1, 2, 3, 4] \<and>
   documents (deleteRepo ''a/b'' store4) = [] \<and>
   embeddings (deleteRepo ''a/b'' store4) = []"
proof -
  have r: "reachable exact_arith True (deleteRepo ''a/b'' store4)" using reachable_store4 by (rule reachable.delete)
  have d: "documents (deleteRepo ''a/b'' store4) = []" by (simp add: store4_def store_eval)
  have "no_orphans (deleteRepo ''a/b'' store4)" using cascade_delete [OF r] by (rule conjunct1)
  then have e: "embeddings (deleteRepo ''a/b'' store4) = []"
    unfolding no_orphans_def d by (cases "embeddings (deleteRepo ''a/b'' store4)") auto
  have i: "map row_id (documents store4) = [1, 2, 3, 4]" by (simp add: store4_def store_eval)
  have j: "map document_id (embeddings store4) = [1, 2, 3, 4]" by (simp add: store4_def store_eval)
  show ?thesis using r d e i j by blast
qed

text \<open>
  The cascade is what removes the rows: under a library whose connections start with
  enforcement off, the embedding row of a deleted chunk would stay.
\<close>

lemma no_cascade_without_foreign_keys:
  "documents (deleteRepo ''a/b'' (upsert docA (VectorStore_new False))) = [] \<and>
   map document_id (embeddings (deleteRepo ''a/b'' (upsert docA (VectorStore_new False)))) = [1]"
  by (simp add: docA_def store_eval)

subsection \<open>The two writes of an upsert\<close>

text \<open>
  Claim C7, as amended.  An upsert is two separate writes, with no transaction.  In every
  store the program can reach: if the first write fails the store is unchanged; if both
  succeed the call returns the new id and there is exactly one document row and exactly one
  embedding row for it; if the second write fails the call fails, the new document row
  stays without an embedding row, and no joined row shows it, so the reads do not return
  it.
\<close>

theorem upsert_two_writes:
  assumes "reachable ar fk db"
  shows "addDocumentF ar FirstWriteFails doc db = (Inl SqliteError, db) \<and>
     fst (addDocumentF ar NoFault doc db) = Inr (next_document_id db) \<and>
     length (filter (\<lambda>d. row_id d = next_document_id db)
               (documents (snd (addDocumentF ar NoFault doc db)))) = 1 \<and>
     length (filter (\<lambda>e. document_id e = next_document_id db)
               (embeddings (snd (addDocumentF ar NoFault doc db)))) = 1 \<and>
     fst (addDocumentF ar SecondWriteFails doc db) = Inl SqliteError \<and>
     length (filter (\<lambda>d. row_id d = next_document_id db)
               (documents (snd (addDocumentF ar SecondWriteFails doc db)))) = 1 \<and>
     filter (\<lambda>e. document_id e = next_document_id db)
               (embeddings (snd (addDocumentF ar SecondWriteFails doc db))) = [] \<and>
     filter (\<lambda>r. row_id (fst r) = next_document_id db)
               (joined (snd (addDocumentF ar SecondWriteFails doc db))) = []"
proof -
  let ?n = "next_document_id db"
  let ?E' = "embeddings (snd (insertDoc doc db))"
  have ok: "store_ok db" using reachable_invariants [OF assms] by simp
  have docs: "filter (\<lambda>d. row_id d = ?n) (documents (snd (addDocumentF ar f doc db))) = [newRow ?n doc]"
    if "f \<noteq> FirstWriteFails" for f
  proof -
    have "row_id d \<noteq> ?n" if "d \<in> set (documents db)" for d
      using next_document_id_fresh [OF that] by simp
    then have "filter (\<lambda>d. row_id d = ?n)
                 (filter (\<lambda>d. row_key d \<noteq> chunk_key doc) (documents db)) = []"
      by (simp add: filter_empty_conv)
    then show ?thesis by (simp add: upsert_documents [OF that])
  qed
  have old: "filter (\<lambda>e. document_id e = ?n) ?E' = []"
  proof -
    have "document_id e \<noteq> ?n" if "e \<in> set ?E'" for e
    proof -
      have "e \<in> set (embeddings db)" using that by (simp add: insertDoc_eq split: if_splits)
      then have "document_id e \<le> documents_seq db" using ok by (simp add: store_ok_def)
      then show ?thesis using next_document_id_seq [of db] by simp
    qed
    then show ?thesis by (simp add: filter_empty_conv)
  qed
  have a: "addDocumentF ar FirstWriteFails doc db = (Inl SqliteError, db)"
    by (simp add: addDocumentF_cases)
  have b: "fst (addDocumentF ar NoFault doc db) = Inr ?n" by (simp add: addDocumentF_cases)
  have c: "length (filter (\<lambda>d. row_id d = ?n) (documents (snd (addDocumentF ar NoFault doc db)))) = 1"
    by (simp add: docs)
  have d: "length (filter (\<lambda>e. document_id e = ?n) (embeddings (snd (addDocumentF ar NoFault doc db)))) = 1"
    by (simp add: addDocumentF_cases old)
  have e: "fst (addDocumentF ar SecondWriteFails doc db) = Inl SqliteError"
    by (simp add: addDocumentF_cases)
  have f: "length (filter (\<lambda>d. row_id d = ?n)
             (documents (snd (addDocumentF ar SecondWriteFails doc db)))) = 1"
    by (simp add: docs)
  have g: "filter (\<lambda>e. document_id e = ?n)
             (embeddings (snd (addDocumentF ar SecondWriteFails doc db))) = []"
    by (simp add: addDocumentF_cases old)
  have h: "filter (\<lambda>r. row_id (fst r) = ?n)
             (joined (snd (addDocumentF ar SecondWriteFails doc db))) = []"
  proof -
    have "row_id (fst r) \<noteq> ?n" if "r \<in> set (joined (snd (addDocumentF ar SecondWriteFails doc db)))" for r
    proof
      assume eq: "row_id (fst r) = ?n"
      have "snd r \<in> set (embeddings (snd (addDocumentF ar SecondWriteFails doc db)))"
        using that by (rule joined_snd)
      moreover have "document_id (snd r) = row_id (fst r)" using that by (auto simp: joined_def)
      ultimately have "snd r \<in> set (filter (\<lambda>e. document_id e = ?n)
             (embeddings (snd (addDocumentF ar SecondWriteFails doc db))))" using eq by simp
      then show False unfolding g by simp
    qed
    then show ?thesis by (simp add: filter_empty_conv)
  qed
  show ?thesis using a b c d e f g h by blast
qed

theorem upsert_two_writes_witness:
  "reachable exact_arith True (VectorStore_new True) \<and>
   fst (addDocumentF exact_arith NoFault docA (VectorStore_new True)) = Inr 1 \<and>
   map document_id (embeddings (snd (addDocumentF exact_arith NoFault docA (VectorStore_new True)))) = [1] \<and>
   filter (\<lambda>r. row_id (fst r) = 1) (joined (snd (addDocumentF exact_arith SecondWriteFails docA (VectorStore_new True)))) = []"
proof -
  note t = upsert_two_writes [OF reachable.fresh [of exact_arith True], of docA]
  have n: "next_document_id (VectorStore_new True :: jsnum database) = 1"
    by (simp add: next_document_id_def VectorStore_new_def)
  have a: "fst (addDocumentF exact_arith NoFault docA (VectorStore_new True)) = Inr 1" using t unfolding n by blast
  have b: "filter (\<lambda>r. row_id (fst r) = 1)
             (joined (snd (addDocumentF exact_arith SecondWriteFails docA (VectorStore_new True)))) = []"
    using t unfolding n by blast
  have c: "map document_id (embeddings (snd (addDocumentF exact_arith NoFault docA (VectorStore_new True)))) = [1]"
    by (simp add: docA_def store_eval)
  show ?thesis using reachable.fresh [of exact_arith True] a b c by blast
qed

text \<open>
  Claim C7 as stated fails: when the second write of an upsert into the new store fails,
  the call fails and the store is not as before; it holds a document row and no
  embedding row.
\<close>

theorem upsert_not_atomic:
  "fst (addDocumentF exact_arith SecondWriteFails docA (VectorStore_new True)) = Inl SqliteError \<and>
   map row_id (documents (snd (addDocumentF exact_arith SecondWriteFails docA (VectorStore_new True)))) = [1] \<and>
   embeddings (snd (addDocumentF exact_arith SecondWriteFails docA (VectorStore_new True))) = [] \<and>
   snd (addDocumentF exact_arith SecondWriteFails docA (VectorStore_new True)) \<noteq> VectorStore_new True"
  by (simp add: docA_def store_eval)

section \<open>Properties of the freshness gate\<close>

text \<open>
  Claim C6.  The gate asks for a reindex when there are no statistics for the
  repository; when there are, it asks for one if the stored \<open>lastUpdated\<close> is strictly
  earlier than the source's timestamp, and for none if it is equal or later.
\<close>

theorem freshness_gate:
  "needsReindex Date None src \<and>
   (Date (stat_lastUpdated st) = Some a \<and> Date src = Some b \<and> a < b \<longrightarrow>
      needsReindex Date (Some st) src) \<and>
   (Date (stat_lastUpdated st) = Some a \<and> Date src = Some b \<and> b \<le> a \<longrightarrow>
      \<not> needsReindex Date (Some st) src)"
  by (simp add: needsReindex_def isUpToDate_def date_ge_def)

theorem freshness_gate_witness:
  "sampleDate (stat_lastUpdated statsJan) = Some 1704067200000 \<and>
   sampleDate ''2024-02-01T00:00:00Z'' = Some 1706745600000 \<and>
   needsReindex sampleDate (Some statsJan) ''2024-02-01T00:00:00Z'' \<and>
   \<not> needsReindex sampleDate (Some statsFeb) ''2024-02-01T00:00:00Z'' \<and>
   \<not> needsReindex sampleDate (Some statsFeb) ''2024-01-01T00:00:00Z'' \<and>
   needsReindex sampleDate (existingRepo [] ''a/b'') ''2024-01-01T00:00:00Z''"
proof -
  have j: "sampleDate (stat_lastUpdated statsJan) = Some 1704067200000"
    by (simp add: sampleDate_def statsJan_def)
  have f: "sampleDate (stat_lastUpdated statsFeb) = Some 1706745600000"
    by (simp add: sampleDate_def statsFeb_def)
  have sj: "sampleDate ''2024-01-01T00:00:00Z'' = Some 1704067200000" by (simp add: sampleDate_def)
  have sf: "sampleDate ''2024-02-01T00:00:00Z'' = Some 1706745600000" by (simp add: sampleDate_def)
  have a: "needsReindex sampleDate (Some statsJan) ''2024-02-01T00:00:00Z''"
    using freshness_gate [of sampleDate "''2024-02-01T00:00:00Z''" statsJan 1704067200000 1706745600000]
      j sf by simp
  have b: "\<not> needsReindex sampleDate (Some statsFeb) ''2024-02-01T00:00:00Z''"
    using freshness_gate [of sampleDate "''2024-02-01T00:00:00Z''" statsFeb 1706745600000 1706745600000]
      f sf by simp
  have c: "\<not> needsReindex sampleDate (Some statsFeb) ''2024-01-01T00:00:00Z''"
    using freshness_gate [of sampleDate "''2024-01-01T00:00:00Z''" statsFeb 1706745600000 1704067200000]
      f sj by simp
  have d: "needsReindex sampleDate (existingRepo [] ''a/b'') ''2024-01-01T00:00:00Z''"
    using freshness_gate [of sampleDate "''2024-01-01T00:00:00Z''"] by (simp add: existingRepo_def)
  show ?thesis using j sf a b c d by blast
qed

end
